theory Spec2Isabelle
  imports Complex_Main "HOL-Library.Multiset" "HOL-Library.Multiset_Order"
    "HOL-Library.Char_ord" "HOL-Library.List_Lexorder"
begin

section \<open>The file system as the audit and the size computation see it\<close>

text \<open>
  A path is the list of its segments; \<open>path.join(a, b)\<close> is \<open>a @ b\<close> and the empty
  relative path \<open>''\<close> is \<open>[]\<close>. A directory lists its entries in the order
  \<open>readdir\<close> returns them. \<open>Link t\<close> is a symbolic link, \<open>t\<close> being the entry that its
  target is; \<open>Broken\<close> is a symbolic link whose target does not exist or cannot be
  resolved (a dangling link, or one link too many on the way); \<open>Other\<close> is any other
  entry that is neither a regular file nor a directory (a socket, a device, a pipe).
  A link holds its target: what lies behind a link is reached through that link only.
\<close>

type_synonym path = "string list"

datatype fsnode = File nat | Dir "(string \<times> fsnode) list" | Other | Link fsnode | Broken

datatype kind = KFile | KDir | KOther

text \<open>
  The tree, and the failures the calls of \<open>node:fs\<close> can raise on it: \<open>readdir_fails p\<close>
  and \<open>stat_fails p\<close> say that \<open>readdir\<close> and \<open>stat\<close> reject on the path \<open>p\<close> although the
  entry exists (no permission, an input/output error, entry removed meanwhile);
  \<open>special_size p\<close> is the \<open>size\<close> that \<open>stat\<close> reports for an entry that is not a
  regular file.
\<close>

record fsys =
  tree :: fsnode
  readdir_fails :: "path \<Rightarrow> bool"
  stat_fails :: "path \<Rightarrow> bool"
  special_size :: "path \<Rightarrow> nat"

record stats =
  isDirectory :: bool
  st_size :: nat

text \<open>
  \<open>lookup t p\<close> is the entry that the path \<open>p\<close> names below \<open>t\<close>: the links on the way
  are followed, a link that is the last segment is the entry itself (as \<open>lstat\<close>,
  \<open>Dirent\<close> and \<open>rm\<close> see it). \<open>follow\<close> goes from an entry to what it finally points
  to, and \<open>resolve\<close> does both, as \<open>existsSync\<close>, \<open>readdir\<close> and \<open>stat\<close> do.
\<close>

fun follow :: "fsnode \<Rightarrow> fsnode option" where
  "follow (Link t) = follow t"
| "follow Broken = None"
| "follow (File s) = Some (File s)"
| "follow (Dir es) = Some (Dir es)"
| "follow Other = Some Other"

fun lookup :: "fsnode \<Rightarrow> path \<Rightarrow> fsnode option" where
  "lookup n [] = Some n"
| "lookup (Dir es) (x # p) = (case map_of es x of None \<Rightarrow> None | Some c \<Rightarrow> lookup c p)"
| "lookup (Link t) (x # p) = lookup t (x # p)"
| "lookup (File s) (x # p) = None"
| "lookup Other (x # p) = None"
| "lookup Broken (x # p) = None"

definition resolve :: "fsys \<Rightarrow> path \<Rightarrow> fsnode option" where
  "resolve fs p = (case lookup (tree fs) p of None \<Rightarrow> None | Some n \<Rightarrow> follow n)"

text \<open>What \<open>Dirent.isFile()\<close> and \<open>Dirent.isDirectory()\<close> say of the entry itself.\<close>

fun kind_of :: "fsnode \<Rightarrow> kind" where
  "kind_of (File s) = KFile"
| "kind_of (Dir es) = KDir"
| "kind_of Other = KOther"
| "kind_of (Link t) = KOther"
| "kind_of Broken = KOther"

definition existsSync :: "fsys \<Rightarrow> path \<Rightarrow> bool" where
  "existsSync fs p = (resolve fs p \<noteq> None)"

text \<open>\<open>readdir(p, {withFileTypes: true})\<close>: \<open>None\<close> when the call rejects.\<close>

definition readdir :: "fsys \<Rightarrow> path \<Rightarrow> (string \<times> kind) list option" where
  "readdir fs p =
     (case resolve fs p of
        Some (Dir es) \<Rightarrow>
          if readdir_fails fs p then None else Some (map (\<lambda>(n, c). (n, kind_of c)) es)
      | _ \<Rightarrow> None)"

text \<open>\<open>readdir(p)\<close> without file types: the names only.\<close>

definition readdir_names :: "fsys \<Rightarrow> path \<Rightarrow> string list option" where
  "readdir_names fs p = map_option (map fst) (readdir fs p)"

text \<open>
  \<open>stat(p)\<close>, which follows links: \<open>None\<close> when the call rejects, as it does when
  nothing is there.
\<close>

definition stat :: "fsys \<Rightarrow> path \<Rightarrow> stats option" where
  "stat fs p =
     (case resolve fs p of
        None \<Rightarrow> None
      | Some n \<Rightarrow>
          if stat_fails fs p then None
          else Some (case n of
                 File s \<Rightarrow> \<lparr>isDirectory = False, st_size = s\<rparr>
               | Dir es \<Rightarrow> \<lparr>isDirectory = True, st_size = special_size fs p\<rparr>
               | _ \<Rightarrow> \<lparr>isDirectory = False, st_size = special_size fs p\<rparr>))"

fun height :: "fsnode \<Rightarrow> nat" where
  "height (File s) = 0"
| "height Other = 0"
| "height Broken = 0"
| "height (Link t) = height t"
| "height (Dir es) = Suc (fold max (map (\<lambda>(n, c). height c) es) 0)"

definition depth_at :: "fsys \<Rightarrow> path \<Rightarrow> nat" where
  "depth_at fs p = (case lookup (tree fs) p of None \<Rightarrow> 0 | Some n \<Rightarrow> height n)"

lemma follow_cases:
  "follow n = None \<or> follow n = Some Other \<or> (\<exists>s. follow n = Some (File s)) \<or>
   (\<exists>es. follow n = Some (Dir es))"
  by (induction n rule: follow.induct) auto

lemma height_follow: "follow n = Some m \<Longrightarrow> height m = height n"
  by (induction n rule: follow.induct) auto

lemma lookup_follow:
  "lookup n (x # p) = (case follow n of Some (Dir es) \<Rightarrow> lookup (Dir es) (x # p) | _ \<Rightarrow> None)"
  by (induction n rule: follow.induct) auto

lemma lookup_append:
  "lookup t (p @ [x]) =
     (case lookup t p of
        None \<Rightarrow> None
      | Some n \<Rightarrow> (case follow n of Some (Dir es) \<Rightarrow> map_of es x | _ \<Rightarrow> None))"
proof (induction t p rule: lookup.induct)
  case (1 n)
  show ?case using lookup_follow [of n x "[]"] by (simp split: option.splits fsnode.splits)
qed (auto split: option.splits)

lemma resolve_append:
  "lookup (tree fs) (p @ [x]) =
     (case resolve fs p of Some (Dir es) \<Rightarrow> map_of es x | _ \<Rightarrow> None)"
  by (simp add: lookup_append resolve_def split: option.splits)

lemma fold_max_ge: "(a::nat) \<le> fold max xs a"
  by (induction xs arbitrary: a) (auto intro: order_trans [OF max.cobounded2])

lemma fold_max_mem: "(x::nat) \<in> set xs \<Longrightarrow> x \<le> fold max xs a"
proof (induction xs arbitrary: a)
  case Nil
  then show ?case by simp
next
  case (Cons y ys)
  show ?case
  proof (cases "x = y")
    case True
    have "max y a \<le> fold max ys (max y a)" by (rule fold_max_ge)
    with True show ?thesis by simp
  next
    case False
    with Cons show ?thesis by simp
  qed
qed

lemma height_child: "map_of es x = Some c \<Longrightarrow> height c < height (Dir es)"
proof -
  assume "map_of es x = Some c"
  then have "(x, c) \<in> set es" by (rule map_of_SomeD)
  then have "height c \<in> set (map (\<lambda>(n, c). height c) es)" by force
  then have "height c \<le> fold max (map (\<lambda>(n, c). height c) es) 0" by (rule fold_max_mem)
  then show ?thesis by simp
qed

lemma depth_at_child:
  "lookup (tree fs) (p @ [x]) \<noteq> None \<Longrightarrow> depth_at fs (p @ [x]) < depth_at fs p"
proof -
  assume a: "lookup (tree fs) (p @ [x]) \<noteq> None"
  then obtain n es c where n: "lookup (tree fs) p = Some n" "follow n = Some (Dir es)"
    "map_of es x = Some c" "lookup (tree fs) (p @ [x]) = Some c"
    by (auto simp: lookup_append split: option.splits fsnode.splits)
  have "height c < height (Dir es)" using n(3) by (rule height_child)
  also have "\<dots> = height n" using n(2) by (rule height_follow)
  finally show ?thesis using n(1,4) by (simp add: depth_at_def)
qed

lemma stat_Some_lookup: "stat fs p = Some st \<Longrightarrow> lookup (tree fs) p \<noteq> None"
  by (auto simp: stat_def resolve_def split: option.splits)

section \<open>calculateDirectorySize\<close>

text \<open>
  \<open>sum_items\<close> is the \<open>for (const item of items)\<close> loop with its running \<open>totalSize\<close>;
  a rejected \<open>stat\<close> leaves the loop through the \<open>catch\<close>, which returns the total
  reached so far. The recursive call has its own \<open>try\<close>/\<open>catch\<close> and never rejects.
\<close>

function calculateDirectorySize :: "fsys \<Rightarrow> path \<Rightarrow> nat"
  and sum_items :: "fsys \<Rightarrow> path \<Rightarrow> string list \<Rightarrow> nat \<Rightarrow> nat" where
  "calculateDirectorySize fs dirPath =
     (if \<not> existsSync fs dirPath then 0
      else case readdir_names fs dirPath of
             None \<Rightarrow> 0
           | Some items \<Rightarrow> sum_items fs dirPath items 0)"
| "sum_items fs dirPath [] totalSize = totalSize"
| "sum_items fs dirPath (item # rest) totalSize =
     (case stat fs (dirPath @ [item]) of
        None \<Rightarrow> totalSize
      | Some st \<Rightarrow>
          if isDirectory st
          then sum_items fs dirPath rest (totalSize + calculateDirectorySize fs (dirPath @ [item]))
          else sum_items fs dirPath rest (totalSize + st_size st))"
  by pat_completeness auto
termination calculateDirectorySize
  apply (relation "inv_image (less_than <*lex*> less_than)
     (\<lambda>x. case x of
        Inl (fs, p) \<Rightarrow>
          (depth_at fs p, Suc (length (case readdir_names fs p of None \<Rightarrow> [] | Some xs \<Rightarrow> xs)))
      | Inr (fs, p, items, t) \<Rightarrow> (depth_at fs p, length items))")
    apply (auto dest!: stat_Some_lookup depth_at_child)
  done

declare calculateDirectorySize.simps [simp del]

text \<open>What one entry adds to the total when its \<open>stat\<close> succeeds.\<close>

definition item_size :: "fsys \<Rightarrow> path \<Rightarrow> string \<Rightarrow> nat" where
  "item_size fs dirPath item =
     (case stat fs (dirPath @ [item]) of
        None \<Rightarrow> 0
      | Some st \<Rightarrow>
          if isDirectory st then calculateDirectorySize fs (dirPath @ [item]) else st_size st)"

text \<open>
  The size as the specification words it: a failing entry loses its own contribution
  only, and every other entry is still counted.
\<close>

function all_readable_size :: "fsys \<Rightarrow> path \<Rightarrow> nat" where
  "all_readable_size fs dirPath =
     (if \<not> existsSync fs dirPath then 0
      else case readdir_names fs dirPath of
             None \<Rightarrow> 0
           | Some items \<Rightarrow>
               sum_list (map (\<lambda>item.
                 case stat fs (dirPath @ [item]) of
                   None \<Rightarrow> 0
                 | Some st \<Rightarrow>
                     if isDirectory st then all_readable_size fs (dirPath @ [item])
                     else st_size st) items))"
  by pat_completeness auto
termination all_readable_size
  apply (relation "measure (\<lambda>(fs, p). depth_at fs p)")
   apply (auto dest!: stat_Some_lookup depth_at_child)
  done

declare all_readable_size.simps [simp del]

text \<open>A directory whose first entry cannot be stat'ed; the second is a file of 7 bytes.\<close>

definition fs_stat_fault :: fsys where
  "fs_stat_fault =
     \<lparr>tree = Dir [(''a'', File 5), (''b'', File 7)],
      readdir_fails = (\<lambda>p. False),
      stat_fails = (\<lambda>p. p = [''a'']),
      special_size = (\<lambda>p. 0)\<rparr>"

lemma sum_items_closed:
  "sum_items fs p items t =
     t + sum_list (map (item_size fs p) (takeWhile (\<lambda>i. stat fs (p @ [i]) \<noteq> None) items))"
  by (induction items arbitrary: t) (auto simp: item_size_def split: option.splits)

text \<open>
  C8 (as amended). A path that does not exist has size 0. Otherwise the call never
  rejects: an unreadable directory counts 0, and a readable one counts the entries
  listed before the first entry whose \<open>stat\<close> fails; that entry and the entries listed
  after it in the same directory are not counted, while the enclosing directories go on
  with their own remaining entries.
\<close>

theorem calculateDirectorySize_partial_sum:
  "(\<not> existsSync fs p \<longrightarrow> calculateDirectorySize fs p = 0) \<and>
   calculateDirectorySize fs p =
     (if \<not> existsSync fs p then 0
      else case readdir_names fs p of
             None \<Rightarrow> 0
           | Some items \<Rightarrow>
               sum_list (map (item_size fs p)
                 (takeWhile (\<lambda>i. stat fs (p @ [i]) \<noteq> None) items)))"
  by (simp add: calculateDirectorySize.simps sum_items_closed split: option.splits)

theorem calculateDirectorySize_partial_sum_witness:
  "\<not> existsSync fs_stat_fault [''gone''] \<and> calculateDirectorySize fs_stat_fault [''gone''] = 0"
  using calculateDirectorySize_partial_sum [of fs_stat_fault "[''gone'']"]
  by (simp add: existsSync_def resolve_def fs_stat_fault_def)

text \<open>
  C8 as stated fails: the entry \<open>b\<close> is readable and lies outside the failing entry
  \<open>a\<close>, yet it is not counted.
\<close>

theorem calculateDirectorySize_drops_later_entries:
  "stat fs_stat_fault [''a''] = None \<and>
   stat fs_stat_fault [''b''] = Some \<lparr>isDirectory = False, st_size = 7\<rparr> \<and>
   all_readable_size fs_stat_fault [] = 7 \<and>
   calculateDirectorySize fs_stat_fault [] = 0"
  by (simp add: calculateDirectorySize.simps all_readable_size.simps fs_stat_fault_def
      existsSync_def resolve_def readdir_names_def readdir_def stat_def)

section \<open>dirHasExtraContent\<close>

definition IGNORED_ENTRY_NAMES :: "string set" where
  "IGNORED_ENTRY_NAMES = {''.DS_Store'', ''Thumbs.db'', ''desktop.ini''}"

text \<open>\<open>{ hasExtra, example? }\<close>; the example \<open>'unknown'\<close> is the path \<open>[''unknown'']\<close>.\<close>

record audit_result =
  hasExtra :: bool
  example :: "path option"

text \<open>An element of the traversal stack: \<open>{ absPath, relPath }\<close>.\<close>

record work_item =
  absPath :: path
  relPath :: path

definition no_extra :: audit_result where
  "no_extra = \<lparr>hasExtra = False, example = None\<rparr>"

definition extra_at :: "path \<Rightarrow> audit_result" where
  "extra_at entryRelPath = \<lparr>hasExtra = True, example = Some entryRelPath\<rparr>"

text \<open>
  The inner \<open>try\<close>: both \<open>stat\<close> calls under \<open>Promise.all\<close>; \<open>Inl ()\<close> when one of
  them rejects, otherwise whether the two sizes differ.
\<close>

definition sizes_differ :: "fsys \<Rightarrow> path \<Rightarrow> path \<Rightarrow> unit + bool" where
  "sizes_differ fs entryAbsPath baselinePath =
     (case stat fs entryAbsPath of
        None \<Rightarrow> Inl ()
      | Some userStat \<Rightarrow>
          (case stat fs baselinePath of
             None \<Rightarrow> Inl ()
           | Some baseStat \<Rightarrow> Inr (st_size userStat \<noteq> st_size baseStat)))"

text \<open>
  The \<open>for (const entry of entries)\<close> loop over one directory. \<open>Inl r\<close>: the loop left
  the function with \<open>return r\<close>; \<open>Inr stack\<close>: it ran to its end, having pushed the
  sub-directories. The stack is a list with its top at the head (\<open>push\<close> is \<open>#\<close>,
  \<open>pop\<close> takes the head). A falsy \<open>baselineDir\<close> (\<open>null\<close>, \<open>undefined\<close>, \<open>''\<close>) is
  \<open>None\<close>.
\<close>

fun scan_entries ::
  "fsys \<Rightarrow> path option \<Rightarrow> work_item \<Rightarrow> (string \<times> kind) list \<Rightarrow> work_item list
     \<Rightarrow> audit_result + work_item list" where
  "scan_entries fs baselineDir current [] stack = Inr stack"
| "scan_entries fs baselineDir current ((name, k) # rest) stack =
     (if name \<in> IGNORED_ENTRY_NAMES then scan_entries fs baselineDir current rest stack
      else
        let entryAbsPath = absPath current @ [name];
            entryRelPath = relPath current @ [name]
        in
          if k = KDir then
            scan_entries fs baselineDir current rest
              (\<lparr>absPath = entryAbsPath, relPath = entryRelPath\<rparr> # stack)
          else if k \<noteq> KFile then Inl (extra_at entryRelPath)
          else
            (case baselineDir of
               None \<Rightarrow> Inl (extra_at entryRelPath)
             | Some b \<Rightarrow>
                 let baselinePath = b @ entryRelPath in
                   if \<not> existsSync fs baselinePath then Inl (extra_at entryRelPath)
                   else
                     (case sizes_differ fs entryAbsPath baselinePath of
                        Inl e \<Rightarrow> Inl (extra_at entryRelPath)
                      | Inr differ \<Rightarrow>
                          if differ then Inl (extra_at entryRelPath)
                          else scan_entries fs baselineDir current rest stack)))"

text \<open>The sub-directories a completed loop has pushed, the last one on top.\<close>

definition pushed_dirs :: "work_item \<Rightarrow> (string \<times> kind) list \<Rightarrow> work_item list" where
  "pushed_dirs current entries =
     rev (map (\<lambda>(name, k). \<lparr>absPath = absPath current @ [name], relPath = relPath current @ [name]\<rparr>)
            (filter (\<lambda>(name, k). name \<notin> IGNORED_ENTRY_NAMES \<and> k = KDir) entries))"

lemma scan_entries_Inr:
  "scan_entries fs b cur entries stack = Inr stack' \<Longrightarrow> stack' = pushed_dirs cur entries @ stack"
  by (induction entries arbitrary: stack)
     (auto simp: pushed_dirs_def Let_def split: if_splits option.splits sum.splits)

lemma readdir_entry_lookup:
  "readdir fs p = Some entries \<Longrightarrow> (name, k) \<in> set entries \<Longrightarrow> lookup (tree fs) (p @ [name]) \<noteq> None"
  by (auto simp: readdir_def resolve_append weak_map_of_SomeI map_of_eq_None_iff image_iff
      split: option.splits fsnode.splits if_splits)

lemma pushed_dirs_depth:
  assumes "readdir fs (absPath cur) = Some entries" and "it \<in> set (pushed_dirs cur entries)"
  shows "depth_at fs (absPath it) < depth_at fs (absPath cur)"
proof -
  from assms(2) obtain name k where "(name, k) \<in> set entries" and "absPath it = absPath cur @ [name]"
    by (auto simp: pushed_dirs_def)
  with assms(1) show ?thesis
    using depth_at_child readdir_entry_lookup by metis
qed

definition stack_depths :: "fsys \<Rightarrow> work_item list \<Rightarrow> nat multiset" where
  "stack_depths fs stack = mset (map (\<lambda>it. depth_at fs (absPath it)) stack)"

lemma stack_depths_step:
  assumes "readdir fs (absPath cur) = Some entries"
  shows "stack_depths fs (pushed_dirs cur entries @ stack) < stack_depths fs (cur # stack)"
proof -
  let ?I = "stack_depths fs stack"
  let ?K = "stack_depths fs (pushed_dirs cur entries)"
  let ?J = "{#depth_at fs (absPath cur)#}"
  have "\<forall>k\<in>#?K. \<exists>j\<in>#?J. k < j"
    using pushed_dirs_depth [OF assms] by (auto simp: stack_depths_def)
  then have "multp (<) (?I + ?K) (?I + ?J)"
    by (intro one_step_implies_multp) auto
  then show ?thesis
    by (simp add: less_multiset_def stack_depths_def ac_simps)
qed

text \<open>
  The \<open>while (stack.length > 0)\<close> loop. \<open>Inl ()\<close>: \<open>readdir\<close> rejected, which the
  outer \<open>catch\<close> of \<open>dirHasExtraContent\<close> receives. Termination: every pushed
  directory lies strictly deeper in the finite tree than the directory popped for it.
\<close>

function walk :: "fsys \<Rightarrow> path option \<Rightarrow> work_item list \<Rightarrow> unit + audit_result" where
  "walk fs baselineDir [] = Inr no_extra"
| "walk fs baselineDir (current # stack) =
     (case readdir fs (absPath current) of
        None \<Rightarrow> Inl ()
      | Some entries \<Rightarrow>
          (case scan_entries fs baselineDir current entries stack of
             Inl r \<Rightarrow> Inr r
           | Inr stack' \<Rightarrow> walk fs baselineDir stack'))"
  by pat_completeness auto
termination walk
proof (relation "inv_image {(M, N). M < N} (\<lambda>(fs, b, stack). stack_depths fs stack)")
  show "wf (inv_image {(M :: nat multiset, N). M < N} (\<lambda>(fs, b, stack). stack_depths fs stack))"
    by (intro wf_inv_image wf_less_multiset)
next
  fix fs :: fsys and baselineDir current stack entries stack'
  assume "readdir fs (absPath current) = Some entries"
    and "scan_entries fs baselineDir current entries stack = Inr stack'"
  then have "stack_depths fs stack' < stack_depths fs (current # stack)"
    using stack_depths_step [of fs current entries stack]
      scan_entries_Inr [of fs baselineDir current entries stack stack'] by simp
  then show "((fs, baselineDir, stack'), (fs, baselineDir, current # stack))
      \<in> inv_image {(M, N). M < N} (\<lambda>(fs, b, stack). stack_depths fs stack)"
    by simp
qed

declare walk.simps [simp del]

text \<open>A falsy \<open>userDir\<close> (\<open>undefined\<close>, \<open>null\<close>, \<open>''\<close>) is \<open>None\<close>.\<close>

definition dirHasExtraContent :: "fsys \<Rightarrow> path option \<Rightarrow> path option \<Rightarrow> audit_result" where
  "dirHasExtraContent fs userDir baselineDir =
     (case userDir of
        None \<Rightarrow> no_extra
      | Some u \<Rightarrow>
          if \<not> existsSync fs u then no_extra
          else
            (case walk fs baselineDir [\<lparr>absPath = u, relPath = []\<rparr>] of
               Inl e \<Rightarrow> \<lparr>hasExtra = True, example = Some [''unknown'']\<rparr>
             | Inr r \<Rightarrow> r))"

section \<open>checkUserIsUnused\<close>

definition keysToCheck :: "string list" where
  "keysToCheck =
     [''chats'', ''groupChats'', ''characters'', ''worlds'', ''groups'', ''files'',
      ''comfyWorkflows'', ''userImages'',
      ''instruct'', ''context'', ''sysprompt'', ''reasoning'', ''quickreplies'',
      ''openAI_Settings'', ''koboldAI_Settings'', ''novelAI_Settings'', ''textGen_Settings'']"

text \<open>
  A directory list maps a category key to its path; a key that is missing or holds a
  falsy value is \<open>None\<close>. The list itself may be \<open>null\<close> (\<open>None\<close>): \<open>dirs?.[key]\<close>.
\<close>

type_synonym directory_list = "string \<rightharpoonup> path"

definition dir_of :: "directory_list option \<Rightarrow> string \<Rightarrow> path option" where
  "dir_of dirs key = (case dirs of None \<Rightarrow> None | Some d \<Rightarrow> d key)"

record unused_result =
  isUnused :: bool
  details :: "string \<rightharpoonup> audit_result"

text \<open>The \<open>for (const key of keysToCheck)\<close> loop with the \<open>details\<close> object it fills.\<close>

fun check_keys ::
  "fsys \<Rightarrow> directory_list option \<Rightarrow> directory_list option \<Rightarrow> string list
     \<Rightarrow> (string \<rightharpoonup> audit_result) \<Rightarrow> unused_result" where
  "check_keys fs userDirectories baselineDirectories [] dets =
     \<lparr>isUnused = True, details = dets\<rparr>"
| "check_keys fs userDirectories baselineDirectories (key # keys) dets =
     (let userDir = dir_of userDirectories key;
          baselineDir = dir_of baselineDirectories key;
          r = dirHasExtraContent fs userDir baselineDir;
          dets' = dets(key \<mapsto> r)
      in if hasExtra r then \<lparr>isUnused = False, details = dets'\<rparr>
         else check_keys fs userDirectories baselineDirectories keys dets')"

definition checkUserIsUnused ::
  "fsys \<Rightarrow> directory_list option \<Rightarrow> directory_list option \<Rightarrow> unused_result" where
  "checkUserIsUnused fs userDirectories baselineDirectories =
     check_keys fs userDirectories baselineDirectories keysToCheck Map.empty"

subsection \<open>What the walk decides\<close>

text \<open>
  \<open>reach fs a q\<close>: starting from directory \<open>a\<close>, the walk descends along the relative path
  \<open>q\<close>: every step is a readable directory's entry that is a directory and is not an
  ignored name.
\<close>

fun reach :: "fsys \<Rightarrow> path \<Rightarrow> path \<Rightarrow> bool" where
  "reach fs a [] = True"
| "reach fs a (name # q) =
     (case readdir fs a of
        None \<Rightarrow> False
      | Some es \<Rightarrow> (name, KDir) \<in> set es \<and> name \<notin> IGNORED_ENTRY_NAMES \<and> reach fs (a @ [name]) q)"

text \<open>
  The classification of one entry that is not a directory, in the words of the
  specification: anything but a regular file is extra; without a baseline directory a
  file is extra; with one, a file is extra when its path is absent from the baseline,
  when a \<open>stat\<close> fails, or when the two sizes differ.
\<close>

definition entry_is_extra :: "fsys \<Rightarrow> path option \<Rightarrow> path \<Rightarrow> path \<Rightarrow> kind \<Rightarrow> bool" where
  "entry_is_extra fs baselineDir entryAbsPath entryRelPath k =
     (if k \<noteq> KFile then True
      else (case baselineDir of
              None \<Rightarrow> True
            | Some b \<Rightarrow>
                if \<not> existsSync fs (b @ entryRelPath) then True
                else (case (stat fs entryAbsPath, stat fs (b @ entryRelPath)) of
                        (Some userStat, Some baseStat) \<Rightarrow> st_size userStat \<noteq> st_size baseStat
                      | _ \<Rightarrow> True)))"

text \<open>
  The directory \<open>a\<close> (relative path \<open>r\<close>) offends: it cannot be read, or one of its
  entries that is neither ignored nor a directory is extra.
\<close>

definition offending :: "fsys \<Rightarrow> path option \<Rightarrow> path \<Rightarrow> path \<Rightarrow> bool" where
  "offending fs baselineDir a r =
     (case readdir fs a of
        None \<Rightarrow> True
      | Some es \<Rightarrow>
          (\<exists>(name, k) \<in> set es. name \<notin> IGNORED_ENTRY_NAMES \<and> k \<noteq> KDir \<and>
             entry_is_extra fs baselineDir (a @ [name]) (r @ [name]) k))"

definition entries_offend :: "fsys \<Rightarrow> path option \<Rightarrow> work_item \<Rightarrow> (string \<times> kind) list \<Rightarrow> bool" where
  "entries_offend fs b cur es =
     (\<exists>(name, k) \<in> set es. name \<notin> IGNORED_ENTRY_NAMES \<and> k \<noteq> KDir \<and>
        entry_is_extra fs b (absPath cur @ [name]) (relPath cur @ [name]) k)"

lemma scan_entries_Inl_hasExtra:
  "scan_entries fs b cur es stack = Inl r \<Longrightarrow> hasExtra r"
  by (induction es arbitrary: stack)
     (auto simp: Let_def extra_at_def split: if_splits option.splits sum.splits)

lemma scan_entries_Inl_iff:
  "(\<exists>r. scan_entries fs b cur es stack = Inl r) \<longleftrightarrow> entries_offend fs b cur es"
proof (induction es arbitrary: stack)
  case Nil
  then show ?case by (simp add: entries_offend_def)
next
  case (Cons e es)
  obtain name k where e: "e = (name, k)" by (cases e)
  have tail: "entries_offend fs b cur (e # es) \<longleftrightarrow>
     (name \<notin> IGNORED_ENTRY_NAMES \<and> k \<noteq> KDir \<and>
        entry_is_extra fs b (absPath cur @ [name]) (relPath cur @ [name]) k) \<or> entries_offend fs b cur es"
    by (auto simp: entries_offend_def e)
  show ?case
    unfolding tail using Cons.IH
    by (auto simp: e Let_def entry_is_extra_def sizes_differ_def split: option.splits sum.splits)
qed

definition walk_bad :: "unit + audit_result \<Rightarrow> bool" where
  "walk_bad w = (case w of Inl e \<Rightarrow> True | Inr r \<Rightarrow> hasExtra r)"

definition item_offends :: "fsys \<Rightarrow> path option \<Rightarrow> work_item \<Rightarrow> bool" where
  "item_offends fs b it = (\<exists>q. reach fs (absPath it) q \<and> offending fs b (absPath it @ q) (relPath it @ q))"

lemma item_offends_unfold:
  assumes rd: "readdir fs (absPath cur) = Some es" and no: "\<not> entries_offend fs b cur es"
  shows "item_offends fs b cur \<longleftrightarrow> (\<exists>it \<in> set (pushed_dirs cur es). item_offends fs b it)"
proof
  assume "item_offends fs b cur"
  then obtain q where q: "reach fs (absPath cur) q" "offending fs b (absPath cur @ q) (relPath cur @ q)"
    by (auto simp: item_offends_def)
  show "\<exists>it \<in> set (pushed_dirs cur es). item_offends fs b it"
  proof (cases q)
    case Nil
    with q(2) rd no show ?thesis by (simp add: offending_def entries_offend_def)
  next
    case (Cons name q')
    let ?it = "\<lparr>absPath = absPath cur @ [name], relPath = relPath cur @ [name]\<rparr>"
    from q(1) Cons rd have "(name, KDir) \<in> set es" "name \<notin> IGNORED_ENTRY_NAMES" "reach fs (absPath cur @ [name]) q'"
      by auto
    then have "?it \<in> set (pushed_dirs cur es)" by (force simp: pushed_dirs_def)
    moreover have "item_offends fs b ?it"
      using q(2) Cons \<open>reach fs (absPath cur @ [name]) q'\<close> by (auto simp: item_offends_def)
    ultimately show ?thesis by blast
  qed
next
  assume "\<exists>it \<in> set (pushed_dirs cur es). item_offends fs b it"
  then obtain it q where it: "it \<in> set (pushed_dirs cur es)" "reach fs (absPath it) q"
    "offending fs b (absPath it @ q) (relPath it @ q)"
    by (auto simp: item_offends_def)
  from it(1) obtain name where n: "(name, KDir) \<in> set es" "name \<notin> IGNORED_ENTRY_NAMES"
    "it = \<lparr>absPath = absPath cur @ [name], relPath = relPath cur @ [name]\<rparr>"
    by (auto simp: pushed_dirs_def)
  have "reach fs (absPath cur) (name # q)" using n it(2) rd by simp
  moreover have "offending fs b (absPath cur @ name # q) (relPath cur @ name # q)"
    using it(3) n(3) by simp
  ultimately show "item_offends fs b cur" unfolding item_offends_def by blast
qed

lemma walk_bad_iff:
  "walk_bad (walk fs b stack) \<longleftrightarrow> (\<exists>it \<in> set stack. item_offends fs b it)"
proof (induction fs b stack rule: walk.induct)
  case (1 fs b)
  then show ?case by (simp add: walk.simps walk_bad_def no_extra_def)
next
  case (2 fs b cur stack)
  show ?case
  proof (cases "readdir fs (absPath cur)")
    case None
    then have "item_offends fs b cur"
      unfolding item_offends_def by (intro exI [of _ "[]"]) (simp add: offending_def)
    with None show ?thesis by (simp add: walk.simps walk_bad_def)
  next
    case (Some es)
    show ?thesis
    proof (cases "scan_entries fs b cur es stack")
      case (Inl r)
      then have "entries_offend fs b cur es" using scan_entries_Inl_iff by blast
      then have "item_offends fs b cur"
        unfolding item_offends_def using Some
        by (intro exI [of _ "[]"]) (simp add: offending_def entries_offend_def)
      with Inl Some scan_entries_Inl_hasExtra [OF Inl] show ?thesis
        by (simp add: walk.simps walk_bad_def)
    next
      case (Inr stack')
      then have no: "\<not> entries_offend fs b cur es" using scan_entries_Inl_iff [of fs b cur es stack] by auto
      have st: "stack' = pushed_dirs cur es @ stack" using Inr by (rule scan_entries_Inr)
      have "walk_bad (walk fs b (cur # stack)) = walk_bad (walk fs b stack')"
        using Some Inr by (simp add: walk.simps)
      also have "\<dots> \<longleftrightarrow> (\<exists>it \<in> set stack'. item_offends fs b it)"
        using "2.IH" [OF Some Inr] .
      also have "\<dots> \<longleftrightarrow> (\<exists>it \<in> set (cur # stack). item_offends fs b it)"
        using item_offends_unfold [OF Some no] st by auto
      finally show ?thesis .
    qed
  qed
qed


text \<open>Somewhere below \<open>u\<close> the walk reaches a directory that offends.\<close>

definition has_offending_entry :: "fsys \<Rightarrow> path option \<Rightarrow> path \<Rightarrow> bool" where
  "has_offending_entry fs baselineDir u = (\<exists>q. reach fs u q \<and> offending fs baselineDir (u @ q) q)"

lemma dirHasExtraContent_iff:
  "hasExtra (dirHasExtraContent fs userDir baselineDir) \<longleftrightarrow>
     (\<exists>u. userDir = Some u \<and> existsSync fs u \<and> has_offending_entry fs baselineDir u)"
proof (cases userDir)
  case None
  then show ?thesis by (simp add: dirHasExtraContent_def no_extra_def)
next
  case (Some u)
  let ?it = "\<lparr>absPath = u, relPath = []\<rparr>"
  have "walk_bad (walk fs baselineDir [?it]) \<longleftrightarrow> has_offending_entry fs baselineDir u"
    unfolding walk_bad_iff by (simp add: item_offends_def has_offending_entry_def)
  then show ?thesis
    using Some by (auto simp: dirHasExtraContent_def no_extra_def walk_bad_def split: sum.splits)
qed



subsection \<open>The loop over the checklist\<close>

text \<open>The report of one category.\<close>

definition category_result ::
  "fsys \<Rightarrow> directory_list option \<Rightarrow> directory_list option \<Rightarrow> string \<Rightarrow> audit_result" where
  "category_result fs ud bd key = dirHasExtraContent fs (dir_of ud key) (dir_of bd key)"

text \<open>
  A call that the walk issues in the directory at relative path \<open>q\<close> below \<open>u\<close> rejects:
  the \<open>readdir\<close> of that directory, or one of the two \<open>stat\<close> calls for a file entry
  whose baseline counterpart exists.
\<close>

definition call_rejects :: "fsys \<Rightarrow> path option \<Rightarrow> path \<Rightarrow> path \<Rightarrow> bool" where
  "call_rejects fs baselineDir u q =
     (case readdir fs (u @ q) of
        None \<Rightarrow> True
      | Some es \<Rightarrow>
          (\<exists>(name, k) \<in> set es. name \<notin> IGNORED_ENTRY_NAMES \<and> k = KFile \<and>
             (case baselineDir of
                None \<Rightarrow> False
              | Some b \<Rightarrow>
                  existsSync fs (b @ q @ [name]) \<and>
                  (stat fs (u @ q @ [name]) = None \<or> stat fs (b @ q @ [name]) = None))))"

lemma entry_is_extra_stat_fails:
  "stat fs a = None \<or> stat fs (b @ r) = None \<Longrightarrow> entry_is_extra fs (Some b) a r k"
  by (cases "stat fs a"; cases "stat fs (b @ r)") (simp_all add: entry_is_extra_def)

lemma call_rejects_offending:
  assumes "call_rejects fs b u q"
  shows "offending fs b (u @ q) q"
proof (cases "readdir fs (u @ q)")
  case None
  then show ?thesis by (simp add: offending_def)
next
  case (Some es)
  with assms obtain name k bd where e: "(name, k) \<in> set es" "name \<notin> IGNORED_ENTRY_NAMES" "k = KFile"
    "b = Some bd" "stat fs (u @ q @ [name]) = None \<or> stat fs (bd @ q @ [name]) = None"
    by (auto simp: call_rejects_def split: option.splits)
  from e(5) have "entry_is_extra fs (Some bd) ((u @ q) @ [name]) (q @ [name]) k"
    using entry_is_extra_stat_fails [of fs "(u @ q) @ [name]" bd "q @ [name]" k] by simp
  with e Some show ?thesis unfolding offending_def by force
qed

lemma check_keys_isUnused:
  "isUnused (check_keys fs ud bd keys dets) \<longleftrightarrow>
     (\<forall>key \<in> set keys. \<not> hasExtra (category_result fs ud bd key))"
  by (induction keys arbitrary: dets) (auto simp: Let_def category_result_def)

lemma check_keys_details_unused:
  "isUnused (check_keys fs ud bd keys dets) \<Longrightarrow>
   dom (details (check_keys fs ud bd keys dets)) = dom dets \<union> set keys"
  by (induction keys arbitrary: dets) (auto simp: Let_def split: if_splits)

lemma check_keys_details_used:
  "\<not> isUnused (check_keys fs ud bd keys dets) \<Longrightarrow>
   \<exists>i < length keys.
      hasExtra (category_result fs ud bd (keys ! i)) \<and>
      (\<forall>j < i. \<not> hasExtra (category_result fs ud bd (keys ! j))) \<and>
      dom (details (check_keys fs ud bd keys dets)) = dom dets \<union> set (take (Suc i) keys)"
proof (induction keys arbitrary: dets)
  case Nil
  then show ?case by simp
next
  case (Cons key keys)
  show ?case
  proof (cases "hasExtra (category_result fs ud bd key)")
    case True
    then have "dom (details (check_keys fs ud bd (key # keys) dets)) =
        dom dets \<union> set (take (Suc 0) (key # keys))"
      by (simp add: Let_def category_result_def)
    with True show ?thesis by (intro exI [of _ 0]) simp
  next
    case False
    let ?d = "dets(key \<mapsto> category_result fs ud bd key)"
    from False have eq: "check_keys fs ud bd (key # keys) dets = check_keys fs ud bd keys ?d"
      by (simp add: Let_def category_result_def)
    with Cons.prems have "\<not> isUnused (check_keys fs ud bd keys ?d)" by simp
    from Cons.IH [OF this] obtain i where i: "i < length keys"
      "hasExtra (category_result fs ud bd (keys ! i))"
      "\<forall>j < i. \<not> hasExtra (category_result fs ud bd (keys ! j))"
      "dom (details (check_keys fs ud bd keys ?d)) = dom ?d \<union> set (take (Suc i) keys)"
      by blast
    have "\<forall>j < Suc i. \<not> hasExtra (category_result fs ud bd ((key # keys) ! j))"
      using False i(3) by (auto simp: nth_Cons split: nat.splits)
    moreover have "dom (details (check_keys fs ud bd (key # keys) dets)) =
        dom dets \<union> set (take (Suc (Suc i)) (key # keys))"
      using i(4) eq by auto
    ultimately show ?thesis using i(1,2) by (intro exI [of _ "Suc i"]) simp
  qed
qed

lemma check_keys_details_value:
  "(\<forall>k r. dets k = Some r \<longrightarrow> r = category_result fs ud bd k) \<Longrightarrow>
   details (check_keys fs ud bd keys dets) k = Some r \<Longrightarrow> r = category_result fs ud bd k"
proof (induction keys arbitrary: dets)
  case Nil
  then show ?case by simp
next
  case (Cons key keys)
  let ?d = "dets(key \<mapsto> category_result fs ud bd key)"
  have d: "\<forall>k r. ?d k = Some r \<longrightarrow> r = category_result fs ud bd k"
    using Cons.prems(1) by (simp split: if_splits)
  show ?case
  proof (cases "hasExtra (category_result fs ud bd key)")
    case True
    then have "details (check_keys fs ud bd (key # keys) dets) = ?d"
      by (simp add: Let_def category_result_def)
    with Cons.prems(2) have "?d k = Some r" by simp
    with d show ?thesis by blast
  next
    case False
    then have "check_keys fs ud bd (key # keys) dets = check_keys fs ud bd keys ?d"
      by (simp add: Let_def category_result_def)
    with Cons.prems(2) have "details (check_keys fs ud bd keys ?d) k = Some r" by simp
    with d show ?thesis by (rule Cons.IH)
  qed
qed

lemma distinct_keysToCheck: "distinct keysToCheck"
  by (simp add: keysToCheck_def)


subsection \<open>A sample tree\<close>

text \<open>
  A user tree and a baseline tree: \<open>chats\<close> holds an empty sub-directory only,
  \<open>worlds/wi.json\<close> differs in size from the baseline, \<open>instruct/preset.json\<close> matches
  it, \<open>files\<close> holds a symbolic link to a directory.
\<close>

definition fs_sample :: fsys where
  "fs_sample =
     \<lparr>tree = Dir [(''user'', Dir [(''chats'', Dir [(''sub'', Dir [])]),
                                 (''worlds'', Dir [(''wi.json'', File 13), (''Thumbs.db'', Other)]),
                                 (''instruct'', Dir [(''preset.json'', File 7)]),
                                 (''files'', Dir [(''link'', Link (Dir [(''doc.txt'', File 3)]))])]),
                  (''base'', Dir [(''worlds'', Dir [(''wi.json'', File 7)]),
                                 (''instruct'', Dir [(''preset.json'', File 7)])])],
      readdir_fails = (\<lambda>p. False),
      stat_fails = (\<lambda>p. False),
      special_size = (\<lambda>p. 0)\<rparr>"

definition dirs_alice :: "directory_list option" where
  "dirs_alice = Some [''chats'' \<mapsto> [''user'', ''chats''], ''worlds'' \<mapsto> [''user'', ''worlds''],
                      ''instruct'' \<mapsto> [''user'', ''instruct'']]"

definition dirs_bob :: "directory_list option" where
  "dirs_bob = Some [''chats'' \<mapsto> [''user'', ''chats''], ''instruct'' \<mapsto> [''user'', ''instruct'']]"

definition dirs_base :: "directory_list option" where
  "dirs_base = Some [''worlds'' \<mapsto> [''base'', ''worlds''], ''instruct'' \<mapsto> [''base'', ''instruct'']]"

text \<open>The same trees when the sub-directory of \<open>chats\<close> cannot be read.\<close>

definition fs_unreadable :: fsys where
  "fs_unreadable = fs_sample\<lparr>readdir_fails := (\<lambda>p. p = [''user'', ''chats'', ''sub''])\<rparr>"

text \<open>
  A directory with a symbolic link to a directory, a dangling link and a file, in this
  order.
\<close>

definition fs_links :: fsys where
  "fs_links =
     \<lparr>tree = Dir [(''d'', Dir [(''l'', Link (Dir [(''f'', File 9)])), (''x'', Broken),
                              (''g'', File 4)])],
      readdir_fails = (\<lambda>p. False),
      stat_fails = (\<lambda>p. False),
      special_size = (\<lambda>p. 0)\<rparr>"

lemmas fs_eval = fs_sample_def existsSync_def resolve_def readdir_def stat_def walk.simps
  dirHasExtraContent_def IGNORED_ENTRY_NAMES_def sizes_differ_def extra_at_def no_extra_def Let_def

text \<open>
  The walk reads the \<open>Dirent\<close> and reports the link as extra; \<open>stat\<close> follows it, so
  the size computation counts what lies behind it. The dangling link does not exist for
  \<open>existsSync\<close> and its \<open>stat\<close> rejects, which ends the loop of the size computation
  before the file.
\<close>

lemma links_are_followed_by_stat_only:
  "readdir fs_links [''d''] = Some [(''l'', KOther), (''x'', KOther), (''g'', KFile)] \<and>
   stat fs_links [''d'', ''l''] = Some \<lparr>isDirectory = True, st_size = 0\<rparr> \<and>
   calculateDirectorySize fs_links [''d'', ''l''] = 9 \<and>
   \<not> existsSync fs_links [''d'', ''x''] \<and>
   stat fs_links [''d'', ''x''] = None \<and>
   calculateDirectorySize fs_links [''d''] = 9 \<and>
   dirHasExtraContent fs_links (Some [''d'']) (Some [''d'']) = extra_at [''l'']"
  by (simp add: fs_links_def calculateDirectorySize.simps readdir_names_def existsSync_def
      resolve_def readdir_def stat_def walk.simps dirHasExtraContent_def IGNORED_ENTRY_NAMES_def
      extra_at_def Let_def)


subsection \<open>Theorems about the audit\<close>

text \<open>
  C3. \<open>checkUserIsUnused\<close> returns \<open>isUnused = true\<close> exactly when every category of the
  checklist reports no extra content, so one category with extra content makes the user
  used whatever the others report. When a \<open>readdir\<close> or \<open>stat\<close> call that the walk of a
  category issues rejects, that category reports \<open>hasExtra = true\<close>, so an error never
  yields \<open>isUnused = true\<close>.
\<close>

theorem checkUserIsUnused_iff_all_clean:
  "(isUnused (checkUserIsUnused fs ud bd) \<longleftrightarrow>
      (\<forall>key \<in> set keysToCheck. \<not> hasExtra (category_result fs ud bd key))) \<and>
   (\<forall>key \<in> set keysToCheck. \<forall>u q.
      dir_of ud key = Some u \<and> existsSync fs u \<and> reach fs u q \<and> call_rejects fs (dir_of bd key) u q
        \<longrightarrow> hasExtra (category_result fs ud bd key) \<and> \<not> isUnused (checkUserIsUnused fs ud bd))"
proof -
  have iff: "isUnused (checkUserIsUnused fs ud bd) \<longleftrightarrow>
      (\<forall>key \<in> set keysToCheck. \<not> hasExtra (category_result fs ud bd key))"
    unfolding checkUserIsUnused_def by (rule check_keys_isUnused)
  have "hasExtra (category_result fs ud bd key)"
    if "dir_of ud key = Some u" "existsSync fs u" "reach fs u q" "call_rejects fs (dir_of bd key) u q"
    for key u q
    unfolding category_result_def dirHasExtraContent_iff has_offending_entry_def
    using that call_rejects_offending by blast
  with iff show ?thesis by blast
qed



theorem checkUserIsUnused_iff_all_clean_witness:
  "isUnused (checkUserIsUnused fs_sample dirs_bob dirs_base) \<and>
   hasExtra (category_result fs_sample dirs_alice dirs_base ''worlds'') \<and>
   \<not> isUnused (checkUserIsUnused fs_sample dirs_alice dirs_base) \<and>
   ''chats'' \<in> set keysToCheck \<and>
   dir_of dirs_bob ''chats'' = Some [''user'', ''chats''] \<and>
   existsSync fs_unreadable [''user'', ''chats''] \<and>
   reach fs_unreadable [''user'', ''chats''] [''sub''] \<and>
   readdir fs_unreadable [''user'', ''chats'', ''sub''] = None \<and>
   call_rejects fs_unreadable (dir_of dirs_base ''chats'') [''user'', ''chats''] [''sub''] \<and>
   hasExtra (category_result fs_unreadable dirs_bob dirs_base ''chats'') \<and>
   \<not> isUnused (checkUserIsUnused fs_unreadable dirs_bob dirs_base)"
proof -
  have "\<forall>key \<in> set keysToCheck. \<not> hasExtra (category_result fs_sample dirs_bob dirs_base key)"
    by (simp add: keysToCheck_def category_result_def dir_of_def dirs_bob_def dirs_base_def fs_eval)
  moreover have "hasExtra (category_result fs_sample dirs_alice dirs_base ''worlds'')"
    by (simp add: category_result_def dir_of_def dirs_alice_def dirs_base_def fs_eval)
  moreover have k: "''worlds'' \<in> set keysToCheck" "''chats'' \<in> set keysToCheck"
    by (simp_all add: keysToCheck_def)
  ultimately have sample: "isUnused (checkUserIsUnused fs_sample dirs_bob dirs_base) \<and>
   hasExtra (category_result fs_sample dirs_alice dirs_base ''worlds'') \<and>
   \<not> isUnused (checkUserIsUnused fs_sample dirs_alice dirs_base)"
    using checkUserIsUnused_iff_all_clean [of fs_sample dirs_bob dirs_base]
      checkUserIsUnused_iff_all_clean [of fs_sample dirs_alice dirs_base]
    by blast
  have e: "dir_of dirs_bob ''chats'' = Some [''user'', ''chats'']"
    "existsSync fs_unreadable [''user'', ''chats'']"
    "reach fs_unreadable [''user'', ''chats''] [''sub'']"
    "readdir fs_unreadable [''user'', ''chats'', ''sub''] = None"
    "call_rejects fs_unreadable (dir_of dirs_base ''chats'') [''user'', ''chats''] [''sub'']"
    by (simp_all add: dir_of_def dirs_bob_def dirs_base_def fs_unreadable_def fs_sample_def
        existsSync_def resolve_def readdir_def call_rejects_def IGNORED_ENTRY_NAMES_def)
  have "hasExtra (category_result fs_unreadable dirs_bob dirs_base ''chats'') \<and>
   \<not> isUnused (checkUserIsUnused fs_unreadable dirs_bob dirs_base)"
    using checkUserIsUnused_iff_all_clean [of fs_unreadable dirs_bob dirs_base] k(2) e
    by blast
  with sample k(2) e show ?thesis by (simp only: simp_thms)
qed


text \<open>
  C10. The categories are checked in checklist order and the check stops at the first
  one with extra content: when the result is used, \<open>details\<close> holds exactly the
  categories up to and including the first offending one and none of the later ones;
  when it is unused, \<open>details\<close> holds every category. Each entry is the report of its
  category.
\<close>

theorem checkUserIsUnused_details_prefix:
  "(isUnused (checkUserIsUnused fs ud bd) \<longrightarrow>
      dom (details (checkUserIsUnused fs ud bd)) = set keysToCheck) \<and>
   (\<not> isUnused (checkUserIsUnused fs ud bd) \<longrightarrow>
      (\<exists>i < length keysToCheck.
         hasExtra (category_result fs ud bd (keysToCheck ! i)) \<and>
         (\<forall>j < i. \<not> hasExtra (category_result fs ud bd (keysToCheck ! j))) \<and>
         dom (details (checkUserIsUnused fs ud bd)) = set (take (Suc i) keysToCheck) \<and>
         (\<forall>key \<in> set (drop (Suc i) keysToCheck). details (checkUserIsUnused fs ud bd) key = None))) \<and>
   (\<forall>key r. details (checkUserIsUnused fs ud bd) key = Some r \<longrightarrow> r = category_result fs ud bd key)"
proof (intro conjI impI allI)
  assume "isUnused (checkUserIsUnused fs ud bd)"
  then show "dom (details (checkUserIsUnused fs ud bd)) = set keysToCheck"
    unfolding checkUserIsUnused_def
    using check_keys_details_unused [of fs ud bd keysToCheck Map.empty] by simp
next
  assume "\<not> isUnused (checkUserIsUnused fs ud bd)"
  then obtain i where i: "i < length keysToCheck"
    "hasExtra (category_result fs ud bd (keysToCheck ! i))"
    "\<forall>j < i. \<not> hasExtra (category_result fs ud bd (keysToCheck ! j))"
    "dom (details (checkUserIsUnused fs ud bd)) = set (take (Suc i) keysToCheck)"
    unfolding checkUserIsUnused_def
    using check_keys_details_used [of fs ud bd keysToCheck Map.empty] by auto
  have "set (take (Suc i) keysToCheck) \<inter> set (drop (Suc i) keysToCheck) = {}"
    using distinct_keysToCheck by (metis append_take_drop_id distinct_append)
  with i(4) have "\<forall>key \<in> set (drop (Suc i) keysToCheck). details (checkUserIsUnused fs ud bd) key = None"
    by (auto simp: domIff)
  with i show "\<exists>i < length keysToCheck.
         hasExtra (category_result fs ud bd (keysToCheck ! i)) \<and>
         (\<forall>j < i. \<not> hasExtra (category_result fs ud bd (keysToCheck ! j))) \<and>
         dom (details (checkUserIsUnused fs ud bd)) = set (take (Suc i) keysToCheck) \<and>
         (\<forall>key \<in> set (drop (Suc i) keysToCheck). details (checkUserIsUnused fs ud bd) key = None)"
    by blast
next
  fix key r
  assume "details (checkUserIsUnused fs ud bd) key = Some r"
  then show "r = category_result fs ud bd key"
    unfolding checkUserIsUnused_def
    by (rule check_keys_details_value [rotated]) simp
qed


theorem checkUserIsUnused_details_prefix_witness:
  "\<not> isUnused (checkUserIsUnused fs_sample dirs_alice dirs_base) \<and>
   details (checkUserIsUnused fs_sample dirs_alice dirs_base) ''chats'' = Some no_extra \<and>
   details (checkUserIsUnused fs_sample dirs_alice dirs_base) ''worlds'' = Some (extra_at [''wi.json'']) \<and>
   details (checkUserIsUnused fs_sample dirs_alice dirs_base) ''groups'' = None \<and>
   isUnused (checkUserIsUnused fs_sample dirs_bob dirs_base) \<and>
   dom (details (checkUserIsUnused fs_sample dirs_bob dirs_base)) = set keysToCheck"
  using checkUserIsUnused_details_prefix [of fs_sample dirs_alice dirs_base]
    checkUserIsUnused_details_prefix [of fs_sample dirs_bob dirs_base]
  by (simp add: checkUserIsUnused_def keysToCheck_def dir_of_def dirs_alice_def dirs_bob_def
      dirs_base_def fs_eval)


text \<open>
  C4. The walk of a category reports extra content exactly when it reaches a directory
  that cannot be read or that holds an entry, not an ignored name, which is classified
  extra. The entries that are directories are the ones the walk descends into; of the
  others, an entry that is not a regular file (a symbolic link, a socket, a device) is
  extra unconditionally; without a baseline directory every file is extra; with one, a
  file is extra when its relative path is absent from the baseline and, when both sizes
  can be read, exactly when they differ, so that a file with a baseline counterpart of
  equal size is accepted.
\<close>

theorem dirHasExtraContent_entry_classification:
  "(hasExtra (dirHasExtraContent fs userDir baselineDir) \<longleftrightarrow>
      (\<exists>u. userDir = Some u \<and> existsSync fs u \<and> has_offending_entry fs baselineDir u)) \<and>
   entry_is_extra fs baselineDir a r KOther \<and>
   entry_is_extra fs None a r KFile \<and>
   (\<not> existsSync fs (b @ r) \<longrightarrow> entry_is_extra fs (Some b) a r KFile) \<and>
   (existsSync fs (b @ r) \<and> stat fs a = Some userStat \<and> stat fs (b @ r) = Some baseStat \<longrightarrow>
      (entry_is_extra fs (Some b) a r KFile \<longleftrightarrow> st_size userStat \<noteq> st_size baseStat))"
  using dirHasExtraContent_iff [of fs userDir baselineDir]
  by (simp add: entry_is_extra_def)

theorem dirHasExtraContent_entry_classification_witness:
  "existsSync fs_sample [''base'', ''worlds'', ''wi.json''] \<and>
   stat fs_sample [''user'', ''worlds'', ''wi.json''] = Some \<lparr>isDirectory = False, st_size = 13\<rparr> \<and>
   stat fs_sample [''base'', ''worlds'', ''wi.json''] = Some \<lparr>isDirectory = False, st_size = 7\<rparr> \<and>
   entry_is_extra fs_sample (Some [''base'', ''worlds'']) [''user'', ''worlds'', ''wi.json'']
     [''wi.json''] KFile \<and>
   hasExtra (dirHasExtraContent fs_sample (Some [''user'', ''worlds'']) (Some [''base'', ''worlds'']))"
  using dirHasExtraContent_entry_classification
    [where fs = fs_sample and userDir = "Some [''user'', ''worlds'']"
       and baselineDir = "Some [''base'', ''worlds'']" and b = "[''base'', ''worlds'']"
       and r = "[''wi.json'']" and a = "[''user'', ''worlds'', ''wi.json'']"
       and userStat = "\<lparr>isDirectory = False, st_size = 13\<rparr>"
       and baseStat = "\<lparr>isDirectory = False, st_size = 7\<rparr>"]
  by (simp add: fs_eval)

section \<open>The account store, the activity monitor and the collaborators\<close>

text \<open>
  A user record of the account store. \<open>created\<close> and \<open>expiresAt\<close> are \<open>None\<close> when the
  field is missing or \<open>null\<close>; \<open>email\<close> is \<open>None\<close> unless the field is a string, and is
  then the list of its UTF-16 code units, on which \<open>trim\<close> works; \<open>admin\<close> is the
  truthiness of the field.
\<close>

type_synonym code_unit = nat

record user =
  handle :: string
  name :: string
  created :: "int option"
  admin :: bool
  email :: "code_unit list option"
  expiresAt :: "int option"

datatype item = UserItem user | AvatarItem string

text \<open>What \<open>systemMonitor.getUserLoadStats\<close> reports for a handle.\<close>

record load_stats =
  lastActivity :: "int option"
  lastHeartbeat :: "int option"

text \<open>\<open>getUserDirectories(handle)\<close>: the root directory and the category directories.\<close>

record user_directories =
  root :: path
  category :: directory_list

record template_info =
  template_exists :: bool
  categories :: "string list option"

text \<open>
  What a call throws or rejects with: an \<open>Error\<close> object with its message;
  \<open>null\<close> or \<open>undefined\<close> (\<open>Nullish\<close>), on which reading \<open>.message\<close> throws a
  \<open>TypeError\<close>; or any other value (\<open>Plain\<close>), whose \<open>.message\<close> reads \<open>undefined\<close>.
\<close>

datatype thrown = Error string | Plain | Nullish

datatype send_outcome = Sent bool | SendRejects thrown

text \<open>
  The collaborators that are imported from other modules, as parameters: the constants
  and key functions of \<open>users.js\<close> and \<open>constants.js\<close>, the template information, the
  digest of \<open>node:crypto\<close>, the number formatting of \<open>JSON.stringify\<close>, the email
  service, and what the calls into the store, the file system, the monitor and the
  other modules throw or reject with (\<open>Some t\<close> when the call on that key, path or
  handle throws \<open>t\<close>; \<open>values_rejects\<close> is for \<open>storage.values\<close>).
  \<open>now_at_recheck h\<close> is \<open>Date.now()\<close> when the candidate \<open>h\<close> is re-checked.
\<close>

record env =
  DEFAULT_USER_handle :: string
  KEY_PREFIX :: string
  toKey :: "string \<Rightarrow> string"
  toAvatarKey :: "string \<Rightarrow> string"
  normalizeHandle :: "string \<Rightarrow> string"
  getUserDirectories :: "string \<Rightarrow> user_directories"
  getUserDirectories_throws :: "string \<Rightarrow> thrown option"
  getDefaultTemplateInfo :: template_info
  getDefaultTemplateInfo_throws :: "thrown option"
  sha256_hex :: "string \<Rightarrow> string"
  numberToString :: "rat \<Rightarrow> string"
  isEmailServiceAvailable :: bool
  isEmailServiceAvailable_throws :: "thrown option"
  sendInactiveUserDeletionNotice :: "code_unit list \<Rightarrow> string \<Rightarrow> int \<Rightarrow> send_outcome"
  values_rejects :: "thrown option"
  getUserLoadStats_throws :: "string \<Rightarrow> thrown option"
  getItem_rejects :: "string \<Rightarrow> thrown option"
  removeItem_rejects :: "string \<Rightarrow> thrown option"
  rm_rejects :: "path \<Rightarrow> thrown option"
  resetUserStats_throws :: "string \<Rightarrow> thrown option"
  now_at_recheck :: "string \<Rightarrow> int"

text \<open>
  The state the routes read and change: the store (key and value, in the order
  \<open>storage.values\<close> lists them; one value per key), the file system and the live
  statistics of the monitor.
\<close>

record world =
  storage :: "(string \<times> item) list"
  files :: fsys
  userLoadStats :: "string \<rightharpoonup> load_stats"

definition getItem :: "world \<Rightarrow> string \<Rightarrow> item option" where
  "getItem w key = map_of (storage w) key"

definition removeItem :: "string \<Rightarrow> world \<Rightarrow> world" where
  "removeItem key w = w\<lparr>storage := filter (\<lambda>(k, v). k \<noteq> key) (storage w)\<rparr>"

text \<open>\<open>storage.values(x => x.key.startsWith(KEY_PREFIX))\<close>; the values there are user records.\<close>

definition startsWith :: "'a list \<Rightarrow> 'a list \<Rightarrow> bool" where
  "startsWith s p = (take (length p) s = p)"

fun user_values :: "(string \<times> item) list \<Rightarrow> string \<Rightarrow> user list" where
  "user_values [] p = []"
| "user_values ((k, UserItem u) # kvs) p =
     (if startsWith k p then u # user_values kvs p else user_values kvs p)"
| "user_values ((k, AvatarItem a) # kvs) p = user_values kvs p"

text \<open>
  \<open>rm(p, {recursive: true, force: true})\<close> on the tree: the entry that the last segment
  names is taken out of its directory, with all that it holds; a link there is removed
  itself, and the links on the way are followed.
\<close>

fun rm_at :: "path \<Rightarrow> fsnode \<Rightarrow> fsnode" where
  "rm_at [] t = t"
| "rm_at [x] (Dir es) = Dir (filter (\<lambda>e. fst e \<noteq> x) es)"
| "rm_at (x # y # p) (Dir es) =
     Dir (map (\<lambda>e. if fst e = x then (fst e, rm_at (y # p) (snd e)) else e) es)"
| "rm_at (x # p) (Link t) = Link (rm_at (x # p) t)"
| "rm_at (x # p) (File s) = File s"
| "rm_at (x # p) Other = Other"
| "rm_at (x # p) Broken = Broken"

definition rm :: "path \<Rightarrow> world \<Rightarrow> world" where
  "rm p w = w\<lparr>files := (files w)\<lparr>tree := rm_at p (tree (files w))\<rparr>\<rparr>"

text \<open>
  Modelled from the spec: \<open>systemMonitor.resetUserStats\<close> is not among the sources; it
  resets the live load and activity statistics tied to the handle.
\<close>

definition resetUserStats :: "string \<Rightarrow> world \<Rightarrow> world" where
  "resetUserStats h w = w\<lparr>userLoadStats := (userLoadStats w)(h := None)\<rparr>"

text \<open>Truthiness of an optional number: present and not \<open>0\<close>.\<close>

definition truthy :: "int option \<Rightarrow> bool" where
  "truthy v = (case v of None \<Rightarrow> False | Some t \<Rightarrow> t \<noteq> 0)"

text \<open>
  \<open>String.prototype.trim\<close> strips the white space and the line terminators of
  ECMAScript from both ends.
\<close>

definition is_space :: "code_unit \<Rightarrow> bool" where
  "is_space c =
     (c \<in> {0x0009, 0x000A, 0x000B, 0x000C, 0x000D, 0x0020, 0x00A0, 0x1680,
            0x2028, 0x2029, 0x202F, 0x205F, 0x3000, 0xFEFF} \<or>
      (0x2000 \<le> c \<and> c \<le> 0x200A))"

definition trim :: "code_unit list \<Rightarrow> code_unit list" where
  "trim s = rev (dropWhile is_space (rev (dropWhile is_space s)))"

definition hasBoundEmail :: "user \<Rightarrow> bool" where
  "hasBoundEmail u = (case email u of None \<Rightarrow> False | Some e \<Rightarrow> length (trim e) > 0)"

section \<open>The request of /delete-inactive-users\<close>

text \<open>A number as \<open>Number(...)\<close> returns it.\<close>

datatype jsnum = NaN | PosInf | NegInf | Fin rat

text \<open>
  The body after the coercions the handler applies when it reads a field:
  \<open>body_dryRun\<close> is \<open>body.dryRun === true\<close>, \<open>body_inactiveDays\<close> is
  \<open>Number(body.inactiveDays ?? 60)\<close>, \<open>body_requireUnused\<close> is \<open>body.requireUnused === true\<close>,
  \<open>body_excludeActiveSubscriptions\<close> is \<open>body.excludeActiveSubscriptions !== false\<close>,
  \<open>body_maxStorageMB\<close> is \<open>None\<close> when the field is \<open>null\<close>, \<open>undefined\<close> or blank and
  \<open>Number(body.maxStorageMB)\<close> otherwise, \<open>body_previewId\<close> is \<open>None\<close> unless the field is
  a string, \<open>body_confirmCount\<close> is \<open>Number(body.confirmCount)\<close>.
\<close>

record request_body =
  body_dryRun :: bool
  body_inactiveDays :: jsnum
  body_requireUnused :: bool
  body_excludeActiveSubscriptions :: bool
  body_maxStorageMB :: "jsnum option"
  body_previewId :: "string option"
  body_confirmCount :: jsnum

record criteria =
  inactiveDays :: int
  requireUnused :: bool
  maxStorageMB :: "rat option"
  excludeActiveSubscriptions :: bool

datatype api_error =
    InvalidInactiveDays
  | InvalidMaxStorageMB
  | MissingPreviewId
  | MissingConfirmCount
  | PreviewChanged
  | ConfirmCountMismatch nat

text \<open>\<open>Math.floor(Number(inactiveDaysRaw))\<close> and its range check.\<close>

definition parse_inactiveDays :: "jsnum \<Rightarrow> api_error + int" where
  "parse_inactiveDays raw =
     (case raw of
        Fin q \<Rightarrow>
          let inactiveDays = \<lfloor>q\<rfloor> in
            if inactiveDays < 1 \<or> inactiveDays > 3650 then Inl InvalidInactiveDays
            else Inr inactiveDays
      | _ \<Rightarrow> Inl InvalidInactiveDays)"

definition parse_maxStorageMB :: "jsnum option \<Rightarrow> api_error + rat option" where
  "parse_maxStorageMB raw =
     (case raw of
        None \<Rightarrow> Inr None
      | Some (Fin parsed) \<Rightarrow> if parsed < 0 then Inl InvalidMaxStorageMB else Inr (Some parsed)
      | Some _ \<Rightarrow> Inl InvalidMaxStorageMB)"

definition maxStorageBytes_of :: "rat option \<Rightarrow> int option" where
  "maxStorageBytes_of mb = map_option (\<lambda>q. \<lfloor>q * 1024 * 1024\<rfloor>) mb"

section \<open>The scan\<close>

record candidate =
  cand_handle :: string
  cand_name :: string
  cand_lastActivity :: int
  daysSinceLastActivity :: int
  storageSize :: nat
  hasEmail :: bool
  cand_expiresAt :: "int option"
  hasActiveSubscription :: bool
  cand_isUnused :: "bool option"

definition categoryToDirKey :: "string \<rightharpoonup> string" where
  "categoryToDirKey =
     map_of [(''characters'', ''characters''), (''worlds'', ''worlds''),
             (''instruct'', ''instruct''), (''context'', ''context''),
             (''sysprompt'', ''sysprompt''), (''reasoning'', ''reasoning''),
             (''quickreplies'', ''quickreplies''), (''openai_settings'', ''openAI_Settings''),
             (''kobold_settings'', ''koboldAI_Settings''), (''novel_settings'', ''novelAI_Settings''),
             (''textgen_settings'', ''textGen_Settings'')]"

text \<open>
  The baseline: the directories of \<open>default-template\<close>, with every key that is not the
  directory of an active template category set to \<open>null\<close>. \<open>Inl t\<close> when
  \<open>getDefaultTemplateInfo\<close> or \<open>getUserDirectories\<close> throws \<open>t\<close>.
\<close>

definition baselineDirectories_of :: "env \<Rightarrow> thrown + directory_list option" where
  "baselineDirectories_of env =
     (case getDefaultTemplateInfo_throws env of
        Some t \<Rightarrow> Inl t
      | None \<Rightarrow>
          (let templateInfo = getDefaultTemplateInfo env in
           case categories templateInfo of
             None \<Rightarrow> Inr None
           | Some cats \<Rightarrow>
               if template_exists templateInfo \<and> length cats > 0 then
                 (case getUserDirectories_throws env ''default-template'' of
                    Some t \<Rightarrow> Inl t
                  | None \<Rightarrow>
                      let activeDirKeys = set (List.map_filter categoryToDirKey cats) in
                        Inr (Some (\<lambda>key. if key \<in> activeDirKeys
                                          then category (getUserDirectories env ''default-template'') key
                                          else None)))
               else Inr None))"

text \<open>The last-activity time of a user (lines 675 to 689 of the handler).\<close>

definition lastActivityTime_of :: "load_stats option \<Rightarrow> user \<Rightarrow> int" where
  "lastActivityTime_of userStats u =
     (let fallback = (case created u of None \<Rightarrow> 0 | Some t \<Rightarrow> t) in
      case userStats of
        None \<Rightarrow> fallback
      | Some s \<Rightarrow>
          (case lastActivity s of
             None \<Rightarrow> fallback
           | Some la \<Rightarrow>
               if la = 0 then fallback
               else (case lastHeartbeat s of
                       None \<Rightarrow> la
                     | Some hb \<Rightarrow> if hb = 0 then la else hb)))"

definition subscription_active :: "user \<Rightarrow> int \<Rightarrow> bool" where
  "subscription_active u t = (case expiresAt u of None \<Rightarrow> False | Some e \<Rightarrow> e \<noteq> 0 \<and> e > t)"

text \<open>
  One round of the \<open>for (const user of users)\<close> loop: \<open>Inr None\<close> is \<open>continue\<close>,
  \<open>Inl t\<close> is a call that throws \<open>t\<close>, which leaves the loop for the \<open>catch\<close> of the
  handler.
\<close>

definition scan_user ::
  "env \<Rightarrow> string \<Rightarrow> int \<Rightarrow> criteria \<Rightarrow> directory_list option \<Rightarrow> world \<Rightarrow> user
     \<Rightarrow> thrown + candidate option" where
  "scan_user env caller now crit baselineDirectories w u =
     (if handle u = caller then Inr None
      else if handle u = DEFAULT_USER_handle env then Inr None
      else if admin u then Inr None
      else
        let hasActive = subscription_active u now in
        if excludeActiveSubscriptions crit \<and> hasActive then Inr None
        else
          (case getUserLoadStats_throws env (handle u) of
             Some t \<Rightarrow> Inl t
           | None \<Rightarrow>
               let userStats = userLoadStats w (handle u);
                   lastActivityTime = lastActivityTime_of userStats u;
                   timeSinceLastActivity = now - lastActivityTime;
                   inactiveThreshold = inactiveDays crit * 24 * 60 * 60 * 1000
               in
               if \<not> (timeSinceLastActivity > inactiveThreshold) then Inr None
               else
                 (case getUserDirectories_throws env (handle u) of
                    Some t \<Rightarrow> Inl t
                  | None \<Rightarrow>
                      let days = timeSinceLastActivity div (24 * 60 * 60 * 1000);
                          directories = getUserDirectories env (handle u);
                          size = calculateDirectorySize (files w) (root directories)
                      in
                      if (case maxStorageBytes_of (maxStorageMB crit) of
                            None \<Rightarrow> False
                          | Some maxStorageBytes \<Rightarrow> int size > maxStorageBytes) then Inr None
                      else
                        let unusedCheck =
                              (if requireUnused crit
                               then Some (checkUserIsUnused (files w) (Some (category directories))
                                            baselineDirectories)
                               else None)
                        in
                        if (case unusedCheck of None \<Rightarrow> False | Some r \<Rightarrow> \<not> isUnused r)
                        then Inr None
                        else
                          Inr (Some
                            \<lparr>cand_handle = handle u, cand_name = name u,
                             cand_lastActivity = lastActivityTime,
                             daysSinceLastActivity = days, storageSize = size,
                             hasEmail = hasBoundEmail u,
                             cand_expiresAt = (if truthy (expiresAt u) then expiresAt u else None),
                             hasActiveSubscription = hasActive,
                             cand_isUnused = map_option isUnused unusedCheck\<rparr>))))"

text \<open>The loop with its two accumulators, \<open>candidates\<close> and \<open>totalCandidateSize\<close>.\<close>

fun scan_users ::
  "env \<Rightarrow> string \<Rightarrow> int \<Rightarrow> criteria \<Rightarrow> directory_list option \<Rightarrow> world \<Rightarrow> user list
     \<Rightarrow> candidate list \<Rightarrow> nat \<Rightarrow> thrown + candidate list \<times> nat" where
  "scan_users env caller now crit bd w [] candidates totalCandidateSize =
     Inr (candidates, totalCandidateSize)"
| "scan_users env caller now crit bd w (u # users) candidates totalCandidateSize =
     (case scan_user env caller now crit bd w u of
        Inl t \<Rightarrow> Inl t
      | Inr None \<Rightarrow> scan_users env caller now crit bd w users candidates totalCandidateSize
      | Inr (Some c) \<Rightarrow>
          scan_users env caller now crit bd w users (candidates @ [c])
            (totalCandidateSize + storageSize c))"

section \<open>The confirmation token\<close>

text \<open>
  \<open>JSON.stringify\<close> of a string: the quotation mark, the backslash and the control
  characters are escaped, the control characters without a short form as \<open>\u00XX\<close> with
  lower-case hexadecimal digits.
\<close>

definition hex_digit :: "nat \<Rightarrow> char" where
  "hex_digit n = ''0123456789abcdef'' ! n"

definition escape_char :: "char \<Rightarrow> string" where
  "escape_char c =
     (if c = CHR 0x22 then [CHR 0x5C, CHR 0x22]
      else if c = CHR 0x5C then [CHR 0x5C, CHR 0x5C]
      else if c = CHR 0x08 then [CHR 0x5C, CHR ''b'']
      else if c = CHR 0x0C then [CHR 0x5C, CHR ''f'']
      else if c = CHR 0x0A then [CHR 0x5C, CHR ''n'']
      else if c = CHR 0x0D then [CHR 0x5C, CHR ''r'']
      else if c = CHR 0x09 then [CHR 0x5C, CHR ''t'']
      else if (of_char c :: nat) < 32 then
        [CHR 0x5C, CHR ''u'', CHR ''0'', CHR ''0'',
         hex_digit (of_char c div 16), hex_digit (of_char c mod 16)]
      else [c])"

definition json_quote :: "string \<Rightarrow> string" where
  "json_quote s = CHR 0x22 # concat (map escape_char s) @ [CHR 0x22]"

definition json_bool :: "bool \<Rightarrow> string" where
  "json_bool b = (if b then ''true'' else ''false'')"

fun join_commas :: "string list \<Rightarrow> string" where
  "join_commas [] = []"
| "join_commas [v] = v"
| "join_commas (v # w # vs) = v @ '','' @ join_commas (w # vs)"

definition json_array :: "string list \<Rightarrow> string" where
  "json_array vs = ''['' @ join_commas vs @ '']''"

definition json_object :: "(string \<times> string) list \<Rightarrow> string" where
  "json_object kvs = ''{'' @ join_commas (map (\<lambda>(k, v). json_quote k @ '':'' @ v) kvs) @ ''}''"

text \<open>\<open>JSON.stringify({ criteria, handles })\<close>, the members in the order of the literals.\<close>

definition JSON_stringify_preview :: "env \<Rightarrow> criteria \<Rightarrow> string list \<Rightarrow> string" where
  "JSON_stringify_preview env crit handles =
     json_object
       [(''criteria'',
         json_object
           [(''inactiveDays'', numberToString env (of_int (inactiveDays crit))),
            (''requireUnused'', json_bool (requireUnused crit)),
            (''maxStorageMB'',
               (case maxStorageMB crit of None \<Rightarrow> ''null'' | Some q \<Rightarrow> numberToString env q)),
            (''excludeActiveSubscriptions'', json_bool (excludeActiveSubscriptions crit))]),
        (''handles'', json_array (map json_quote handles))]"

text \<open>
  The token: the handles sorted by \<open>Array.prototype.sort\<close> without a comparator, that is
  by code units, then the digest of the JSON text.
\<close>

definition previewId_of :: "env \<Rightarrow> criteria \<Rightarrow> candidate list \<Rightarrow> string" where
  "previewId_of env crit candidates =
     sha256_hex env (JSON_stringify_preview env crit (sort (map cand_handle candidates)))"

section \<open>The execution pass\<close>

text \<open>
  One entry of \<open>results\<close>. \<open>emailInfo\<close> is \<open>None\<close> when the entry has no
  \<open>emailNotified\<close> and \<open>emailError\<close> fields, else the two values.
\<close>

record deletion_result =
  res_handle :: string
  res_name :: string
  success :: bool
  error :: "string option"
  deletedSize :: "nat option"
  emailInfo :: "(bool \<times> string option) option"

definition failed_result ::
  "candidate \<Rightarrow> string \<Rightarrow> (bool \<times> string option) option \<Rightarrow> deletion_result" where
  "failed_result c msg info =
     \<lparr>res_handle = cand_handle c, res_name = cand_name c, success = False,
      error = Some msg, deletedSize = None, emailInfo = info\<rparr>"

text \<open>
  \<open>storage.getItem(key)\<close> read as a user record; a key of \<open>toKey\<close> holds a user record
  or nothing.
\<close>

definition user_at :: "world \<Rightarrow> string \<Rightarrow> user option" where
  "user_at w key = (case getItem w key of Some (UserItem u) \<Rightarrow> Some u | _ \<Rightarrow> None)"

text \<open>
  The notice to a bound email address: \<open>Inl t\<close> when a call of the email service
  throws \<open>t\<close>, else \<open>(emailNotified, emailError)\<close>.
\<close>

definition notify :: "env \<Rightarrow> user \<Rightarrow> candidate \<Rightarrow> thrown + (bool \<times> string option)" where
  "notify env u c =
     (case email u of
        None \<Rightarrow> Inr (False, None)
      | Some e \<Rightarrow>
          if \<not> length (trim e) > 0 then Inr (False, None)
          else
            (case isEmailServiceAvailable_throws env of
               Some t \<Rightarrow> Inl t
             | None \<Rightarrow>
                 if isEmailServiceAvailable env then
                   (case sendInactiveUserDeletionNotice env (trim e) (name u)
                           (daysSinceLastActivity c) of
                      SendRejects t \<Rightarrow> Inl t
                    | Sent sent \<Rightarrow>
                        Inr (sent, if sent then None
                                   else Some ''Failed to send notification email''))
                 else Inr (False, Some ''Email service not available'')))"

text \<open>\<open>systemMonitor.resetUserStats(h)\<close> as the last step of a removal.\<close>

definition reset_stats :: "env \<Rightarrow> string \<Rightarrow> world \<Rightarrow> (thrown + unit) \<times> world" where
  "reset_stats env h w =
     (case resetUserStats_throws env h of
        Some t \<Rightarrow> (Inl t, w)
      | None \<Rightarrow> (Inr (), resetUserStats h w))"

text \<open>
  The removals of one candidate, in the order of the handler; \<open>Inl t\<close> when a call
  throws \<open>t\<close>, with the state as the calls before it have left it.
\<close>

definition remove_account :: "env \<Rightarrow> string \<Rightarrow> world \<Rightarrow> (thrown + unit) \<times> world" where
  "remove_account env h w =
     (case getUserDirectories_throws env h of
        Some t \<Rightarrow> (Inl t, w)
      | None \<Rightarrow>
          (let directories = getUserDirectories env h in
           case removeItem_rejects env (toKey env h) of
             Some t \<Rightarrow> (Inl t, w)
           | None \<Rightarrow>
               let w1 = removeItem (toKey env h) w in
               (case removeItem_rejects env (toAvatarKey env h) of
                  Some t \<Rightarrow> (Inl t, w1)
                | None \<Rightarrow>
                    let w2 = removeItem (toAvatarKey env h) w1 in
                    if existsSync (files w2) (root directories) then
                      (case rm_rejects env (root directories) of
                         Some t \<Rightarrow> (Inl t, w2)
                       | None \<Rightarrow> reset_stats env h (rm (root directories) w2))
                    else reset_stats env h w2)))"

text \<open>
  The \<open>catch\<close> of one candidate: it pushes a failure with \<open>error.message\<close> and the
  email outcome reached so far. For \<open>null\<close> or \<open>undefined\<close> the read of \<open>.message\<close>
  throws, nothing is pushed and the \<open>TypeError\<close> leaves the loop (\<open>None\<close>).
\<close>

definition catch_candidate ::
  "candidate \<Rightarrow> thrown \<Rightarrow> bool \<times> string option \<Rightarrow> deletion_result option" where
  "catch_candidate c t info =
     (case t of
        Error msg \<Rightarrow> Some (failed_result c msg (Some info))
      | Plain \<Rightarrow> Some ((failed_result c [] (Some info))\<lparr>error := None\<rparr>)
      | Nullish \<Rightarrow> None)"

text \<open>
  The body of \<open>for (const candidate of candidates)\<close>: the entry pushed to \<open>results\<close>
  and the state afterwards; \<open>None\<close> when the \<open>catch\<close> of the candidate throws.
\<close>

definition delete_candidate ::
  "env \<Rightarrow> string \<Rightarrow> bool \<Rightarrow> candidate \<Rightarrow> world \<Rightarrow> deletion_result option \<times> world" where
  "delete_candidate env caller excl c w =
     (case getItem_rejects env (toKey env (cand_handle c)) of
        Some t \<Rightarrow> (catch_candidate c t (False, None), w)
      | None \<Rightarrow>
          (case user_at w (toKey env (cand_handle c)) of
             None \<Rightarrow> (Some (failed_result c ''User not found'' None), w)
           | Some u \<Rightarrow>
               if cand_handle c = caller \<or> cand_handle c = DEFAULT_USER_handle env \<or> admin u
               then (Some (failed_result c ''Protected user cannot be deleted'' None), w)
               else if excl \<and> subscription_active u (now_at_recheck env (cand_handle c))
               then (Some (failed_result c ''User has active subscription'' None), w)
               else
                 (case notify env u c of
                    Inl t \<Rightarrow> (catch_candidate c t (False, None), w)
                  | Inr info \<Rightarrow>
                      (case remove_account env (cand_handle c) w of
                         (Inl t, w') \<Rightarrow> (catch_candidate c t info, w')
                       | (Inr ok, w') \<Rightarrow>
                           (Some \<lparr>res_handle = cand_handle c, res_name = cand_name c,
                                  success = True, error = None,
                                  deletedSize = Some (storageSize c),
                                  emailInfo = Some info\<rparr>, w')))))"

text \<open>
  The loop with \<open>results\<close> and \<open>totalDeletedSize\<close>; \<open>None\<close> when a round has left
  it by throwing, with the state as the rounds so far have left it.
\<close>

fun delete_candidates ::
  "env \<Rightarrow> string \<Rightarrow> bool \<Rightarrow> candidate list \<Rightarrow> deletion_result list \<Rightarrow> nat \<Rightarrow> world
     \<Rightarrow> (deletion_result list \<times> nat) option \<times> world" where
  "delete_candidates env caller excl [] results totalDeletedSize w =
     (Some (results, totalDeletedSize), w)"
| "delete_candidates env caller excl (c # cs) results totalDeletedSize w =
     (case delete_candidate env caller excl c w of
        (None, w') \<Rightarrow> (None, w')
      | (Some r, w') \<Rightarrow>
          delete_candidates env caller excl cs (results @ [r])
            (if success r then totalDeletedSize + storageSize c else totalDeletedSize) w')"

section \<open>The handler of /delete-inactive-users\<close>

text \<open>
  The two reports and the rejections of the route. The display strings of the responses
  (\<open>message\<close>, \<open>lastActivityFormatted\<close>, the text of the 500 response) are left out.
  \<open>ServerError\<close> is the response 500 of the outer \<open>catch\<close>. That \<open>catch\<close> reads
  \<open>error.message\<close> as well: for \<open>null\<close> or \<open>undefined\<close> it throws in turn and the
  handler ends without a response of its own (\<open>Unhandled\<close>).
\<close>

record preview_report =
  preview_criteria :: criteria
  preview_previewId :: string
  inactiveUsers :: "candidate list"
  totalUsers :: nat
  totalSize :: nat

record execution_report =
  exec_criteria :: criteria
  exec_previewId :: string
  deletedUsers :: "deletion_result list"
  failedUsers :: "deletion_result list"
  totalDeleted :: nat
  totalFailed :: nat
  totalDeletedSize :: nat

datatype response =
    Rejected nat api_error
  | Preview preview_report
  | Executed execution_report
  | ServerError
  | Unhandled

definition outer_catch :: "thrown \<Rightarrow> response" where
  "outer_catch t = (case t of Nullish \<Rightarrow> Unhandled | _ \<Rightarrow> ServerError)"

definition valid_previewId :: "string option \<Rightarrow> bool" where
  "valid_previewId p = (case p of None \<Rightarrow> False | Some s \<Rightarrow> \<not> length s < 8)"

text \<open>\<open>Number.isFinite(n) && Number.isInteger(n) && n >= 0\<close>.\<close>

definition valid_confirmCount :: "jsnum \<Rightarrow> bool" where
  "valid_confirmCount n = (case n of Fin q \<Rightarrow> of_int \<lfloor>q\<rfloor> = q \<and> \<not> q < 0 | _ \<Rightarrow> False)"

text \<open>
  The scan: the baseline, \<open>storage.values\<close>, then the loop over the users. It changes
  nothing; \<open>Inl t\<close> when one of its calls throws \<open>t\<close>.
\<close>

definition scan ::
  "env \<Rightarrow> string \<Rightarrow> int \<Rightarrow> criteria \<Rightarrow> world \<Rightarrow> thrown + candidate list \<times> nat" where
  "scan env caller now crit w =
     (case baselineDirectories_of env of
        Inl t \<Rightarrow> Inl t
      | Inr baselineDirectories \<Rightarrow>
          (case values_rejects env of
             Some t \<Rightarrow> Inl t
           | None \<Rightarrow>
               scan_users env caller now crit baselineDirectories w
                 (user_values (storage w) (KEY_PREFIX env)) [] 0))"

definition delete_inactive_users ::
  "env \<Rightarrow> string \<Rightarrow> int \<Rightarrow> request_body \<Rightarrow> world \<Rightarrow> response \<times> world" where
  "delete_inactive_users env caller now body w =
     (case parse_inactiveDays (body_inactiveDays body) of
        Inl e \<Rightarrow> (Rejected 400 e, w)
      | Inr days \<Rightarrow>
          (case parse_maxStorageMB (body_maxStorageMB body) of
             Inl e \<Rightarrow> (Rejected 400 e, w)
           | Inr mb \<Rightarrow>
               let crit = \<lparr>inactiveDays = days, requireUnused = body_requireUnused body,
                           maxStorageMB = mb,
                           excludeActiveSubscriptions = body_excludeActiveSubscriptions body\<rparr>
               in
               (case scan env caller now crit w of
                  Inl t \<Rightarrow> (outer_catch t, w)
                | Inr (candidates, totalCandidateSize) \<Rightarrow>
                    let previewId = previewId_of env crit candidates in
                    if body_dryRun body then
                      (Preview \<lparr>preview_criteria = crit, preview_previewId = previewId,
                                inactiveUsers = candidates, totalUsers = length candidates,
                                totalSize = totalCandidateSize\<rparr>, w)
                    else if \<not> valid_previewId (body_previewId body) then
                      (Rejected 400 MissingPreviewId, w)
                    else if \<not> valid_confirmCount (body_confirmCount body) then
                      (Rejected 400 MissingConfirmCount, w)
                    else if body_previewId body \<noteq> Some previewId then
                      (Rejected 409 PreviewChanged, w)
                    else if body_confirmCount body \<noteq> Fin (of_nat (length candidates)) then
                      (Rejected 400 (ConfirmCountMismatch (length candidates)), w)
                    else
                      (case delete_candidates env caller (excludeActiveSubscriptions crit)
                              candidates [] 0 w of
                         (None, w') \<Rightarrow> (ServerError, w')
                       | (Some (results, deletedTotal), w') \<Rightarrow>
                           (Executed \<lparr>exec_criteria = crit, exec_previewId = previewId,
                                      deletedUsers = filter success results,
                                      failedUsers = filter (\<lambda>r. \<not> success r) results,
                                      totalDeleted = length (filter success results),
                                      totalFailed = length (filter (\<lambda>r. \<not> success r) results),
                                      totalDeletedSize = deletedTotal\<rparr>, w')))))"

section \<open>The handler of /delete\<close>

text \<open>\<open>delete_handle\<close> is \<open>body.handle\<close>, \<open>''\<close> when it is missing; \<open>purge\<close> its truthiness.\<close>

record delete_body =
  delete_handle :: string
  purge :: bool

datatype delete_error =
    MissingFields | CannotDeleteYourself | CannotDeleteDefaultUser | InvalidHandleFormat

text \<open>
  \<open>Deleted\<close> is the response 204, \<open>DeleteFailed\<close> the response 500 of the \<open>catch\<close>,
  which does not read the value it caught.
\<close>

datatype delete_response = Deleted | DeleteRejected delete_error | DeleteFailed

definition delete_user ::
  "env \<Rightarrow> string \<Rightarrow> delete_body \<Rightarrow> world \<Rightarrow> delete_response \<times> world" where
  "delete_user env caller body w =
     (if delete_handle body = [] then (DeleteRejected MissingFields, w)
      else if delete_handle body = caller then (DeleteRejected CannotDeleteYourself, w)
      else if delete_handle body = DEFAULT_USER_handle env
      then (DeleteRejected CannotDeleteDefaultUser, w)
      else
        let normalizedHandle = normalizeHandle env (delete_handle body) in
        if normalizedHandle = [] then (DeleteRejected InvalidHandleFormat, w)
        else
          (case removeItem_rejects env (toKey env normalizedHandle) of
             Some t \<Rightarrow> (DeleteFailed, w)
           | None \<Rightarrow>
               let w1 = removeItem (toKey env normalizedHandle) w in
               (case removeItem_rejects env (toAvatarKey env normalizedHandle) of
                  Some t \<Rightarrow> (DeleteFailed, w1)
                | None \<Rightarrow>
                    let w2 = removeItem (toAvatarKey env normalizedHandle) w1 in
                    (case resetUserStats_throws env normalizedHandle of
                       Some t \<Rightarrow> (DeleteFailed, w2)
                     | None \<Rightarrow>
                         let w3 = resetUserStats normalizedHandle w2 in
                         if purge body then
                           (case getUserDirectories_throws env normalizedHandle of
                              Some t \<Rightarrow> (DeleteFailed, w3)
                            | None \<Rightarrow>
                                let directories = getUserDirectories env normalizedHandle in
                                (case rm_rejects env (root directories) of
                                   Some t \<Rightarrow> (DeleteFailed, w3)
                                 | None \<Rightarrow> (Deleted, rm (root directories) w3)))
                         else (Deleted, w3)))))"

section \<open>Properties of the scan\<close>

lemma scan_users_mem:
  "scan_users env caller now crit bd w users cs t = Inr (cs', t') \<Longrightarrow> c \<in> set cs' \<Longrightarrow>
   c \<in> set cs \<or> (\<exists>u \<in> set users. scan_user env caller now crit bd w u = Inr (Some c))"
proof (induction users arbitrary: cs t)
  case Nil
  then show ?case by simp
next
  case (Cons u users)
  show ?case
  proof (cases "scan_user env caller now crit bd w u")
    case (Inl e)
    with Cons.prems show ?thesis by simp
  next
    case (Inr r)
    show ?thesis
    proof (cases r)
      case None
      with Inr Cons.prems Cons.IH [of cs t] show ?thesis by auto
    next
      case (Some d)
      with Inr Cons.prems Cons.IH [of "cs @ [d]" "t + storageSize d"] show ?thesis by auto
    qed
  qed
qed

lemma scan_users_cong:
  "scan_user env = scan_user env' \<Longrightarrow>
   scan_users env caller now crit bd w users cs t = scan_users env' caller now crit bd w users cs t"
  by (induction users arbitrary: cs t) (auto split: sum.splits option.splits)

lemma scan_candidates:
  assumes "scan env caller now crit w = Inr (cs, tot)" and "c \<in> set cs"
  shows "\<exists>bd. \<exists>u \<in> set (user_values (storage w) (KEY_PREFIX env)).
           scan_user env caller now crit bd w u = Inr (Some c)"
proof -
  from assms(1) obtain bd where
    "scan_users env caller now crit bd w (user_values (storage w) (KEY_PREFIX env)) [] 0 = Inr (cs, tot)"
    by (auto simp: scan_def split: sum.splits option.splits)
  from scan_users_mem [OF this assms(2)] show ?thesis by auto
qed

lemma scan_user_protected:
  "handle u = caller \<or> handle u = DEFAULT_USER_handle env \<or> admin u \<Longrightarrow>
   scan_user env caller now crit bd w u = Inr None"
  by (auto simp: scan_user_def)

lemma scan_user_Some:
  assumes "scan_user env caller now crit bd w u = Inr (Some c)"
  shows "cand_handle c = handle u" and "handle u \<noteq> caller"
    and "handle u \<noteq> DEFAULT_USER_handle env" and "\<not> admin u"
    and "cand_lastActivity c = lastActivityTime_of (userLoadStats w (handle u)) u"
    and "now - cand_lastActivity c > inactiveDays crit * 24 * 60 * 60 * 1000"
  using assms by (auto simp: scan_user_def Let_def split: if_splits option.splits)

lemma scan_user_recent:
  assumes "\<not> now - lastActivityTime_of (userLoadStats w (handle u)) u
             > inactiveDays crit * 24 * 60 * 60 * 1000"
  shows "scan_user env caller now crit bd w u \<noteq> Inr (Some c)"
    and "getUserLoadStats_throws env (handle u) = None \<Longrightarrow>
         scan_user env caller now crit bd w u = Inr None"
  using assms by (auto simp: scan_user_def Let_def split: option.splits)

text \<open>
  The last-activity time in the words of the specification: the heartbeat if present,
  else the recorded last activity if present, else the creation time.
\<close>

definition or_zero :: "int option \<Rightarrow> int" where
  "or_zero v = (case v of None \<Rightarrow> 0 | Some t \<Rightarrow> t)"

definition spec_lastActivityTime :: "load_stats option \<Rightarrow> user \<Rightarrow> int" where
  "spec_lastActivityTime userStats u =
     (let heartbeat = (case userStats of None \<Rightarrow> None | Some s \<Rightarrow> lastHeartbeat s);
          recorded = (case userStats of None \<Rightarrow> None | Some s \<Rightarrow> lastActivity s)
      in if truthy heartbeat then or_zero heartbeat
         else if truthy recorded then or_zero recorded
         else or_zero (created u))"

lemma lastActivityTime_of_cases:
  "lastActivityTime_of None u = or_zero (created u)"
  "\<not> truthy (lastActivity s) \<Longrightarrow> lastActivityTime_of (Some s) u = or_zero (created u)"
  "truthy (lastActivity s) \<Longrightarrow> truthy (lastHeartbeat s) \<Longrightarrow>
     lastActivityTime_of (Some s) u = or_zero (lastHeartbeat s)"
  "truthy (lastActivity s) \<Longrightarrow> \<not> truthy (lastHeartbeat s) \<Longrightarrow>
     lastActivityTime_of (Some s) u = or_zero (lastActivity s)"
  by (auto simp: lastActivityTime_of_def truthy_def or_zero_def split: option.splits)

text \<open>
  C6 (as amended). When a recorded last-activity signal is present, the last-activity
  time is the heartbeat if one is present and the recorded signal otherwise, as the
  specification says; when no recorded last-activity signal is present (or the monitor
  has no statistics for the user), it is the creation time, or 0 without one, whether or
  not a heartbeat is present. Every candidate carries that time and lies more than
  \<open>inactiveDays\<close> days (in milliseconds) in the past; a user for whom the elapsed time does
  not strictly exceed the threshold is not a candidate.
\<close>

theorem last_activity_time_and_threshold:
  "lastActivityTime_of None u = or_zero (created u) \<and>
   (\<not> truthy (lastActivity s) \<longrightarrow> lastActivityTime_of (Some s) u = or_zero (created u)) \<and>
   (truthy (lastActivity s) \<and> truthy (lastHeartbeat s) \<longrightarrow>
      lastActivityTime_of (Some s) u = or_zero (lastHeartbeat s)) \<and>
   (truthy (lastActivity s) \<and> \<not> truthy (lastHeartbeat s) \<longrightarrow>
      lastActivityTime_of (Some s) u = or_zero (lastActivity s)) \<and>
   (truthy (lastActivity s) \<longrightarrow> lastActivityTime_of (Some s) u = spec_lastActivityTime (Some s) u) \<and>
   (scan env caller now crit w = Inr (candidates, tot) \<longrightarrow>
      (\<forall>c \<in> set candidates.
         \<exists>v \<in> set (user_values (storage w) (KEY_PREFIX env)).
           cand_handle c = handle v \<and>
           cand_lastActivity c = lastActivityTime_of (userLoadStats w (handle v)) v \<and>
           now - cand_lastActivity c > inactiveDays crit * 24 * 60 * 60 * 1000)) \<and>
   (\<not> now - lastActivityTime_of (userLoadStats w (handle u)) u
          > inactiveDays crit * 24 * 60 * 60 * 1000 \<longrightarrow>
      (\<forall>c. scan_user env caller now crit bd w u \<noteq> Inr (Some c)) \<and>
      (getUserLoadStats_throws env (handle u) = None \<longrightarrow>
         scan_user env caller now crit bd w u = Inr None))"
proof -
  have "\<exists>v \<in> set (user_values (storage w) (KEY_PREFIX env)).
        cand_handle c = handle v \<and>
        cand_lastActivity c = lastActivityTime_of (userLoadStats w (handle v)) v \<and>
        now - cand_lastActivity c > inactiveDays crit * 24 * 60 * 60 * 1000"
    if "scan env caller now crit w = Inr (candidates, tot)" "c \<in> set candidates" for c
  proof -
    from scan_candidates [OF that] obtain b v
      where v: "v \<in> set (user_values (storage w) (KEY_PREFIX env))"
        "scan_user env caller now crit b w v = Inr (Some c)"
      by blast
    from scan_user_Some [OF v(2)] v(1) show ?thesis by blast
  qed
  moreover have "truthy (lastActivity s) \<longrightarrow>
      lastActivityTime_of (Some s) u = spec_lastActivityTime (Some s) u"
    by (auto simp: lastActivityTime_of_def spec_lastActivityTime_def truthy_def or_zero_def
        split: option.splits)
  ultimately show ?thesis
    using lastActivityTime_of_cases scan_user_recent
    by (intro conjI impI allI ballI) blast+
qed

section \<open>Properties of the execution pass\<close>

lemma map_of_filter_key:
  "k \<noteq> k' \<Longrightarrow> map_of (filter (\<lambda>(a, b). a \<noteq> k) kvs) k' = map_of kvs k'"
  by (induction kvs) auto

lemma getItem_removeItem: "k \<noteq> k' \<Longrightarrow> getItem (removeItem k w) k' = getItem w k'"
  by (simp add: getItem_def removeItem_def map_of_filter_key)

lemma map_of_filter_fst: "y \<noteq> x \<Longrightarrow> map_of (filter (\<lambda>e. fst e \<noteq> x) es) y = map_of es y"
  by (induction es) auto

lemma map_of_map_other:
  "y \<noteq> x \<Longrightarrow> map_of (map (\<lambda>e. if fst e = x then (fst e, f (snd e)) else e) es) y = map_of es y"
  by (induction es) auto

lemma map_of_map_same:
  "map_of (map (\<lambda>e. if fst e = x then (fst e, f (snd e)) else e) es) x = map_option f (map_of es x)"
  by (induction es) auto

text \<open>Removing a tree leaves every path that is neither below nor above it as it was.\<close>

lemma lookup_rm_at:
  "\<not> startsWith q p \<Longrightarrow> \<not> startsWith p q \<Longrightarrow> lookup (rm_at p t) q = lookup t q"
proof (induction p t arbitrary: q rule: rm_at.induct)
  case (1 t)
  then show ?case by (simp add: startsWith_def)
next
  case (2 x es)
  then obtain y q' where q: "q = y # q'" and "y \<noteq> x"
    by (cases q) (auto simp: startsWith_def)
  then show ?case by (simp add: map_of_filter_fst)
next
  case (3 x y p es)
  from "3.prems" obtain z q' where q: "q = z # q'"
    by (cases q) (auto simp: startsWith_def)
  show ?case
  proof (cases "z = x")
    case False
    with q show ?thesis by (simp add: map_of_map_other)
  next
    case True
    show ?thesis
    proof (cases "map_of es x")
      case None
      with q True show ?thesis by (simp add: map_of_map_same)
    next
      case (Some c)
      then have mem: "(x, c) \<in> set es" by (rule map_of_SomeD)
      have "\<not> startsWith q' (y # p)" "\<not> startsWith (y # p) q'"
        using "3.prems" q True by (auto simp: startsWith_def)
      then have "lookup (rm_at (y # p) c) q' = lookup c q'"
        using "3.IH" [OF mem] by simp
      with q True Some show ?thesis by (simp add: map_of_map_same)
    qed
  qed
next
  case (4 x p t)
  from "4.prems" obtain z q' where q: "q = z # q'"
    by (cases q) (auto simp: startsWith_def)
  with "4.IH" [OF "4.prems"] show ?case by simp
qed simp_all

text \<open>
  The keys and the root directory of the handle \<open>p\<close> are not shared with another
  handle: no other handle has the same key, no avatar key of another handle is the key
  of \<open>p\<close>, and no other root directory lies above or below the root directory of \<open>p\<close>.
\<close>

definition separate :: "env \<Rightarrow> string \<Rightarrow> bool" where
  "separate env p =
     (\<forall>h. h \<noteq> p \<longrightarrow>
        toKey env h \<noteq> toKey env p \<and> toAvatarKey env h \<noteq> toKey env p \<and>
        \<not> startsWith (root (getUserDirectories env p)) (root (getUserDirectories env h)) \<and>
        \<not> startsWith (root (getUserDirectories env h)) (root (getUserDirectories env p)))"

definition account_of :: "env \<Rightarrow> world \<Rightarrow> string \<Rightarrow> item option \<times> fsnode option" where
  "account_of env w p =
     (getItem w (toKey env p), lookup (tree (files w)) (root (getUserDirectories env p)))"

lemma account_of_simps:
  "k \<noteq> toKey env p \<Longrightarrow> account_of env (removeItem k w) p = account_of env w p"
  "account_of env (resetUserStats h w) p = account_of env w p"
  "\<not> startsWith (root (getUserDirectories env p)) d \<Longrightarrow>
   \<not> startsWith d (root (getUserDirectories env p)) \<Longrightarrow>
     account_of env (rm d w) p = account_of env w p"
proof -
  show "k \<noteq> toKey env p \<Longrightarrow> account_of env (removeItem k w) p = account_of env w p"
    by (simp add: account_of_def getItem_removeItem) (simp add: removeItem_def)
  show "account_of env (resetUserStats h w) p = account_of env w p"
    by (simp add: account_of_def resetUserStats_def getItem_def)
  show "\<not> startsWith (root (getUserDirectories env p)) d \<Longrightarrow>
   \<not> startsWith d (root (getUserDirectories env p)) \<Longrightarrow>
     account_of env (rm d w) p = account_of env w p"
    by (simp add: account_of_def rm_def getItem_def lookup_rm_at)
qed

lemma remove_account_preserves:
  assumes "separate env p" and "h \<noteq> p" and "remove_account env h w = (x, w')"
  shows "account_of env w' p = account_of env w p"
proof -
  from assms(1,2) have s: "toKey env h \<noteq> toKey env p" "toAvatarKey env h \<noteq> toKey env p"
    "\<not> startsWith (root (getUserDirectories env p)) (root (getUserDirectories env h))"
    "\<not> startsWith (root (getUserDirectories env h)) (root (getUserDirectories env p))"
    by (auto simp: separate_def)
  from assms(3) show ?thesis
    by (auto simp: remove_account_def reset_stats_def Let_def account_of_simps s
        split: option.splits if_splits)
qed

definition protected :: "env \<Rightarrow> string \<Rightarrow> world \<Rightarrow> string \<Rightarrow> bool" where
  "protected env caller w p =
     (p = caller \<or> p = DEFAULT_USER_handle env \<or>
      (case user_at w (toKey env p) of None \<Rightarrow> False | Some v \<Rightarrow> admin v))"

lemma delete_candidate_protected_unchanged:
  assumes "protected env caller w (cand_handle c)"
  shows "snd (delete_candidate env caller excl c w) = w"
  using assms
  by (auto simp: delete_candidate_def protected_def split: option.splits)

lemma delete_candidate_preserves:
  assumes "protected env caller w p" and "separate env p"
  shows "account_of env (snd (delete_candidate env caller excl c w)) p = account_of env w p"
proof (cases "cand_handle c = p")
  case True
  with assms(1) show ?thesis by (simp add: delete_candidate_protected_unchanged)
next
  case False
  have "account_of env w' p = account_of env w p" if "remove_account env (cand_handle c) w = (x, w')" for x w'
    using remove_account_preserves [OF assms(2) False that] .
  then show ?thesis
    by (auto simp: delete_candidate_def split: option.splits sum.splits prod.splits)
qed

lemma protected_cong:
  "account_of env w' p = account_of env w p \<Longrightarrow> protected env caller w' p = protected env caller w p"
  by (simp add: protected_def account_of_def user_at_def)

lemma delete_candidates_preserves:
  assumes "protected env caller w p" and "separate env p"
  shows "account_of env (snd (delete_candidates env caller excl cs rs t w)) p = account_of env w p"
  using assms(1)
proof (induction cs arbitrary: rs t w)
  case Nil
  then show ?case by simp
next
  case (Cons c cs)
  obtain r w' where step: "delete_candidate env caller excl c w = (r, w')"
    by (cases "delete_candidate env caller excl c w")
  have acc: "account_of env w' p = account_of env w p"
    using delete_candidate_preserves [OF Cons.prems assms(2), of excl c] step by simp
  then have "protected env caller w' p" using Cons.prems protected_cong by blast
  from Cons.IH [OF this] acc step show ?case by (cases r) simp_all
qed

text \<open>
  What the store, the file system, the email service, the monitor and
  \<open>getUserDirectories\<close> throw during the deletion of a candidate: never \<open>null\<close> or
  \<open>undefined\<close> (\<open>never_nullish\<close>); \<open>Error\<close> objects only (\<open>rejections_are_errors\<close>), as
  \<open>node-persist\<close> and \<open>node:fs\<close> do.
\<close>

definition is_error :: "thrown \<Rightarrow> bool" where
  "is_error t = (case t of Error msg \<Rightarrow> True | _ \<Rightarrow> False)"

definition never_nullish :: "env \<Rightarrow> bool" where
  "never_nullish env =
     (\<forall>k p h e n d.
        getItem_rejects env k \<noteq> Some Nullish \<and>
        removeItem_rejects env k \<noteq> Some Nullish \<and>
        rm_rejects env p \<noteq> Some Nullish \<and>
        getUserDirectories_throws env h \<noteq> Some Nullish \<and>
        resetUserStats_throws env h \<noteq> Some Nullish \<and>
        isEmailServiceAvailable_throws env \<noteq> Some Nullish \<and>
        sendInactiveUserDeletionNotice env e n d \<noteq> SendRejects Nullish)"

definition rejections_are_errors :: "env \<Rightarrow> bool" where
  "rejections_are_errors env =
     (\<forall>k p h e n d t.
        (getItem_rejects env k = Some t \<longrightarrow> is_error t) \<and>
        (removeItem_rejects env k = Some t \<longrightarrow> is_error t) \<and>
        (rm_rejects env p = Some t \<longrightarrow> is_error t) \<and>
        (getUserDirectories_throws env h = Some t \<longrightarrow> is_error t) \<and>
        (resetUserStats_throws env h = Some t \<longrightarrow> is_error t) \<and>
        (isEmailServiceAvailable_throws env = Some t \<longrightarrow> is_error t) \<and>
        (sendInactiveUserDeletionNotice env e n d = SendRejects t \<longrightarrow> is_error t))"

lemma rejections_are_errors_never_nullish: "rejections_are_errors env \<Longrightarrow> never_nullish env"
proof -
  assume a: "rejections_are_errors env"
  have n: "\<not> is_error Nullish" by (simp add: is_error_def)
  from a have "getItem_rejects env k \<noteq> Some Nullish" "removeItem_rejects env k \<noteq> Some Nullish"
    "rm_rejects env p \<noteq> Some Nullish" "getUserDirectories_throws env h \<noteq> Some Nullish"
    "resetUserStats_throws env h \<noteq> Some Nullish" "isEmailServiceAvailable_throws env \<noteq> Some Nullish"
    "sendInactiveUserDeletionNotice env e s d \<noteq> SendRejects Nullish" for k p h e s d
    unfolding rejections_are_errors_def using n by blast+
  then show ?thesis unfolding never_nullish_def by blast
qed

lemma notify_thrown:
  assumes "notify env u c = Inl t"
  shows "never_nullish env \<Longrightarrow> t \<noteq> Nullish" and "rejections_are_errors env \<Longrightarrow> is_error t"
  using assms
  by (auto simp: notify_def never_nullish_def rejections_are_errors_def
      split: option.splits if_splits send_outcome.splits)

lemma remove_account_thrown:
  assumes "remove_account env h w = (Inl t, w')"
  shows "never_nullish env \<Longrightarrow> t \<noteq> Nullish" and "rejections_are_errors env \<Longrightarrow> is_error t"
  using assms
  by (auto simp: remove_account_def reset_stats_def Let_def never_nullish_def
      rejections_are_errors_def split: option.splits if_splits)

lemma catch_candidate_entry:
  "t \<noteq> Nullish \<Longrightarrow>
   \<exists>r. catch_candidate c t info = Some r \<and> res_handle r = cand_handle c \<and> \<not> success r"
  by (cases t) (simp_all add: catch_candidate_def failed_result_def)

lemma catch_candidate_message:
  "is_error t \<Longrightarrow> catch_candidate c t info = Some r \<Longrightarrow> \<not> success r \<and> error r \<noteq> None"
  by (cases t) (auto simp: catch_candidate_def failed_result_def is_error_def)

text \<open>Every round pushes one entry for its candidate unless its \<open>catch\<close> throws.\<close>

lemma delete_candidate_entry:
  "fst (delete_candidate env caller excl c w) = Some r \<Longrightarrow> res_handle r = cand_handle c"
  by (auto simp: delete_candidate_def failed_result_def catch_candidate_def
      split: option.splits sum.splits prod.splits if_splits thrown.splits)

lemma delete_candidate_returns:
  assumes "never_nullish env"
  shows "\<exists>r. fst (delete_candidate env caller excl c w) = Some r"
proof -
  have g: "getItem_rejects env (toKey env (cand_handle c)) \<noteq> Some Nullish"
    using assms by (simp add: never_nullish_def)
  have c: "\<exists>r. catch_candidate c t info = Some r" if "t \<noteq> Nullish" for t info
    using catch_candidate_entry [OF that] by blast
  show ?thesis
  proof (cases "getItem_rejects env (toKey env (cand_handle c))")
    case (Some t)
    with g c [of t] show ?thesis by (simp add: delete_candidate_def)
  next
    case None
    show ?thesis
    proof (cases "user_at w (toKey env (cand_handle c))")
      case n: None
      with None show ?thesis by (simp add: delete_candidate_def)
    next
      case (Some u)
      show ?thesis
      proof (cases "notify env u c")
        case (Inl t)
        with c [of t] notify_thrown(1) [OF Inl assms] None Some show ?thesis
          by (auto simp: delete_candidate_def)
      next
        case (Inr info)
        obtain x w' where ra: "remove_account env (cand_handle c) w = (x, w')"
          by (cases "remove_account env (cand_handle c) w")
        show ?thesis
        proof (cases x)
          case (Inl t)
          with c [of t info] remove_account_thrown(1) [OF ra [unfolded Inl] assms] None Some Inr ra
          show ?thesis by (auto simp: delete_candidate_def)
        next
          case r: (Inr ok)
          with None Some Inr ra show ?thesis by (auto simp: delete_candidate_def)
        qed
      qed
    qed
  qed
qed

lemma delete_candidate_success_iff:
  assumes "rejections_are_errors env" and "fst (delete_candidate env caller excl c w) = Some r"
  shows "success r \<longleftrightarrow> error r = None"
proof -
  have c: "\<not> success r \<and> error r \<noteq> None" if "is_error t" "catch_candidate c t info = Some r"
    for t info
    using catch_candidate_message [OF that] .
  have e: "is_error t" if "getItem_rejects env (toKey env (cand_handle c)) = Some t" for t
    using assms(1) that unfolding rejections_are_errors_def by blast
  show ?thesis
  proof (cases "getItem_rejects env (toKey env (cand_handle c))")
    case (Some t)
    with assms(2) c [OF e [OF Some]] show ?thesis by (simp add: delete_candidate_def)
  next
    case None
    show ?thesis
    proof (cases "user_at w (toKey env (cand_handle c))")
      case n: None
      with None assms(2) show ?thesis by (auto simp: delete_candidate_def failed_result_def)
    next
      case (Some u)
      show ?thesis
      proof (cases "notify env u c")
        case (Inl t)
        with c [of t "(False, None)"] notify_thrown(2) [OF Inl assms(1)] None Some assms(2)
        show ?thesis
          by (auto simp: delete_candidate_def failed_result_def split: if_splits)
      next
        case (Inr info)
        obtain x w' where ra: "remove_account env (cand_handle c) w = (x, w')"
          by (cases "remove_account env (cand_handle c) w")
        show ?thesis
        proof (cases x)
          case (Inl t)
          with c [of t info] remove_account_thrown(2) [OF ra [unfolded Inl] assms(1)]
            None Some Inr ra assms(2)
          show ?thesis by (auto simp: delete_candidate_def failed_result_def split: if_splits)
        next
          case r: (Inr ok)
          with None Some Inr ra assms(2) show ?thesis
            by (auto simp: delete_candidate_def failed_result_def split: if_splits)
        qed
      qed
    qed
  qed
qed

lemma delete_candidates_results:
  assumes "never_nullish env"
  shows "\<exists>rs' t'. fst (delete_candidates env caller excl cs rs t w) = Some (rs', t') \<and>
           map res_handle rs' = map res_handle rs @ map cand_handle cs"
proof (induction cs arbitrary: rs t w)
  case Nil
  then show ?case by simp
next
  case (Cons c cs)
  from delete_candidate_returns [OF assms, of caller excl c w]
  obtain r w' where step: "delete_candidate env caller excl c w = (Some r, w')"
    by (cases "delete_candidate env caller excl c w") auto
  then have "res_handle r = cand_handle c"
    using delete_candidate_entry [of env caller excl c w r] by simp
  with Cons.IH [of "rs @ [r]" _ w'] step show ?case by simp
qed

lemma delete_candidates_success_iff:
  assumes "rejections_are_errors env"
  shows "\<forall>r \<in> set rs. success r \<longleftrightarrow> error r = None \<Longrightarrow>
         fst (delete_candidates env caller excl cs rs t w) = Some (rs', t') \<Longrightarrow>
         \<forall>r \<in> set rs'. success r \<longleftrightarrow> error r = None"
proof (induction cs arbitrary: rs t w)
  case Nil
  then show ?case by simp
next
  case (Cons c cs)
  obtain x w' where step: "delete_candidate env caller excl c w = (x, w')"
    by (cases "delete_candidate env caller excl c w")
  show ?case
  proof (cases x)
    case None
    with step Cons.prems(2) show ?thesis by simp
  next
    case (Some r)
    then have "success r \<longleftrightarrow> error r = None"
      using delete_candidate_success_iff [OF assms, of caller excl c w r] step by simp
    with Cons.prems(1) have "\<forall>x \<in> set (rs @ [r]). success x \<longleftrightarrow> error x = None" by auto
    from Cons.IH [OF this] step Some Cons.prems(2) show ?thesis by simp
  qed
qed

lemma delete_candidates_append:
  "delete_candidates env caller excl (xs @ ys) rs t w =
     (case delete_candidates env caller excl xs rs t w of
        (None, w1) \<Rightarrow> (None, w1)
      | (Some (rs1, t1), w1) \<Rightarrow> delete_candidates env caller excl ys rs1 t1 w1)"
  by (induction xs arbitrary: rs t w) (auto split: prod.splits option.splits)

section \<open>A sample installation\<close>

text \<open>
  Keys \<open>user:h\<close> and \<open>avatar:h\<close>, root directories \<open>data/h\<close>, a normalisation that folds
  upper-case letters, no default template, the identity as a stand-in for the digest,
  an email service that is down, no rejections.
\<close>

definition to_lower :: "char \<Rightarrow> char" where
  "to_lower c =
     (case map_of (zip ''ABCDEFGHIJKLMNOPQRSTUVWXYZ'' ''abcdefghijklmnopqrstuvwxyz'') c of
        None \<Rightarrow> c
      | Some l \<Rightarrow> l)"

definition env_sample :: env where
  "env_sample =
     \<lparr>DEFAULT_USER_handle = ''default-user'',
      KEY_PREFIX = ''user:'',
      toKey = (\<lambda>h. ''user:'' @ h),
      toAvatarKey = (\<lambda>h. ''avatar:'' @ h),
      normalizeHandle = map to_lower,
      getUserDirectories = (\<lambda>h. \<lparr>root = [''data'', h], category = (\<lambda>k. Some [''data'', h, k])\<rparr>),
      getUserDirectories_throws = (\<lambda>h. None),
      getDefaultTemplateInfo = \<lparr>template_exists = False, categories = None\<rparr>,
      getDefaultTemplateInfo_throws = None,
      sha256_hex = (\<lambda>s. s),
      numberToString = (\<lambda>q. if q = 60 then ''60'' else ''0''),
      isEmailServiceAvailable = False,
      isEmailServiceAvailable_throws = None,
      sendInactiveUserDeletionNotice = (\<lambda>e n d. Sent False),
      values_rejects = None,
      getUserLoadStats_throws = (\<lambda>h. None),
      getItem_rejects = (\<lambda>k. None),
      removeItem_rejects = (\<lambda>k. None),
      rm_rejects = (\<lambda>p. None),
      resetUserStats_throws = (\<lambda>h. None),
      now_at_recheck = (\<lambda>h. 8640000000)\<rparr>"

definition user_sample :: "string \<Rightarrow> bool \<Rightarrow> user" where
  "user_sample h a =
     \<lparr>handle = h, name = h, created = Some 1000, admin = a, email = None, expiresAt = None\<rparr>"

definition world_sample :: world where
  "world_sample =
     \<lparr>storage =
        [(''user:admin'', UserItem (user_sample ''admin'' True)),
         (''user:default-user'', UserItem (user_sample ''default-user'' False)),
         (''user:carol'', UserItem (user_sample ''carol'' False)),
         (''avatar:carol'', AvatarItem ''png''),
         (''user:dan'', UserItem (user_sample ''dan'' False))],
      files =
        \<lparr>tree = Dir [(''data'',
                  Dir [(''default-user'', Dir [(''settings.json'', File 10)]),
                       (''carol'', Dir [(''chats'', Dir [(''c1.jsonl'', File 100)])]),
                       (''dan'', Dir [(''notes.txt'', File 50)])])],
         readdir_fails = (\<lambda>p. False),
         stat_fails = (\<lambda>p. False),
         special_size = (\<lambda>p. 0)\<rparr>,
      userLoadStats = Map.empty\<rparr>"

text \<open>The same installation after \<open>carol\<close> has been promoted to admin.\<close>

definition world_promoted :: world where
  "world_promoted =
     world_sample\<lparr>storage :=
        [(''user:admin'', UserItem (user_sample ''admin'' True)),
         (''user:default-user'', UserItem (user_sample ''default-user'' False)),
         (''user:carol'', UserItem (user_sample ''carol'' True)),
         (''avatar:carol'', AvatarItem ''png''),
         (''user:dan'', UserItem (user_sample ''dan'' False))]\<rparr>"

definition criteria_sample :: criteria where
  "criteria_sample =
     \<lparr>inactiveDays = 60, requireUnused = False, maxStorageMB = None,
      excludeActiveSubscriptions = True\<rparr>"

definition carol_candidate :: candidate where
  "carol_candidate =
     \<lparr>cand_handle = ''carol'', cand_name = ''carol'', cand_lastActivity = 1000,
      daysSinceLastActivity = 99, storageSize = 100, hasEmail = False,
      cand_expiresAt = None, hasActiveSubscription = False, cand_isUnused = None\<rparr>"

definition dan_candidate :: candidate where
  "dan_candidate =
     \<lparr>cand_handle = ''dan'', cand_name = ''dan'', cand_lastActivity = 1000,
      daysSinceLastActivity = 99, storageSize = 50, hasEmail = False,
      cand_expiresAt = None, hasActiveSubscription = False, cand_isUnused = None\<rparr>"

text \<open>
  The same collaborators, but removing the record of \<open>carol\<close> rejects with an
  \<open>Error\<close>; and the same, but removing the avatar of \<open>carol\<close> rejects with
  \<open>undefined\<close>.
\<close>

definition env_faulty :: env where
  "env_faulty =
     env_sample\<lparr>removeItem_rejects :=
       (\<lambda>k. if k = ''user:carol'' then Some (Error ''EIO'') else None)\<rparr>"

definition env_nullish :: env where
  "env_nullish =
     env_sample\<lparr>removeItem_rejects :=
       (\<lambda>k. if k = ''avatar:carol'' then Some Nullish else None)\<rparr>"

text \<open>The same collaborators, but \<open>storage.values\<close> rejects.\<close>

definition env_offline :: env where
  "env_offline = env_sample\<lparr>values_rejects := Some (Error ''EIO'')\<rparr>"

lemmas scan_eval = scan_def scan_user_def baselineDirectories_of_def startsWith_def
  subscription_active_def lastActivityTime_of_def maxStorageBytes_of_def hasBoundEmail_def
  truthy_def calculateDirectorySize.simps existsSync_def resolve_def readdir_names_def
  readdir_def stat_def Let_def

lemma scan_sample:
  "scan env_sample ''admin'' 8640000000 criteria_sample world_sample =
     Inr ([carol_candidate, dan_candidate], 150)"
  by (simp add: env_sample_def world_sample_def criteria_sample_def carol_candidate_def
      dan_candidate_def user_sample_def scan_eval)

lemma env_faulty_fields:
  "getUserDirectories env_faulty = getUserDirectories env_sample"
  "getUserDirectories_throws env_faulty = getUserDirectories_throws env_sample"
  "getDefaultTemplateInfo env_faulty = getDefaultTemplateInfo env_sample"
  "getDefaultTemplateInfo_throws env_faulty = getDefaultTemplateInfo_throws env_sample"
  "getUserLoadStats_throws env_faulty = getUserLoadStats_throws env_sample"
  "values_rejects env_faulty = values_rejects env_sample"
  "DEFAULT_USER_handle env_faulty = DEFAULT_USER_handle env_sample"
  "KEY_PREFIX env_faulty = KEY_PREFIX env_sample"
  by (simp_all add: env_faulty_def)

lemma env_nullish_fields:
  "getUserDirectories env_nullish = getUserDirectories env_sample"
  "getUserDirectories_throws env_nullish = getUserDirectories_throws env_sample"
  "getDefaultTemplateInfo env_nullish = getDefaultTemplateInfo env_sample"
  "getDefaultTemplateInfo_throws env_nullish = getDefaultTemplateInfo_throws env_sample"
  "getUserLoadStats_throws env_nullish = getUserLoadStats_throws env_sample"
  "values_rejects env_nullish = values_rejects env_sample"
  "DEFAULT_USER_handle env_nullish = DEFAULT_USER_handle env_sample"
  "KEY_PREFIX env_nullish = KEY_PREFIX env_sample"
  by (simp_all add: env_nullish_def)

lemma scan_faulty:
  "scan env_faulty ''admin'' 8640000000 criteria_sample world_sample =
     scan env_sample ''admin'' 8640000000 criteria_sample world_sample"
proof -
  have "scan_user env_faulty = scan_user env_sample"
    unfolding fun_eq_iff scan_user_def env_faulty_fields by simp
  from scan_users_cong [OF this]
  have u: "scan_users env_faulty c n cr bd w us cs t = scan_users env_sample c n cr bd w us cs t"
    for c n cr bd w us cs t .
  have b: "baselineDirectories_of env_faulty = baselineDirectories_of env_sample"
    unfolding baselineDirectories_of_def env_faulty_fields by simp
  show ?thesis
    unfolding scan_def u b env_faulty_fields by (rule refl)
qed

lemma scan_nullish:
  "scan env_nullish ''admin'' 8640000000 criteria_sample world_sample =
     scan env_sample ''admin'' 8640000000 criteria_sample world_sample"
proof -
  have "scan_user env_nullish = scan_user env_sample"
    unfolding fun_eq_iff scan_user_def env_nullish_fields by simp
  from scan_users_cong [OF this]
  have u: "scan_users env_nullish c n cr bd w us cs t = scan_users env_sample c n cr bd w us cs t"
    for c n cr bd w us cs t .
  have b: "baselineDirectories_of env_nullish = baselineDirectories_of env_sample"
    unfolding baselineDirectories_of_def env_nullish_fields by simp
  show ?thesis
    unfolding scan_def u b env_nullish_fields by (rule refl)
qed

lemma scan_offline:
  "scan env_offline ''admin'' 8640000000 criteria_sample world_sample = Inl (Error ''EIO'')"
  by (simp add: scan_def baselineDirectories_of_def env_offline_def env_sample_def)

lemma errors_faulty: "rejections_are_errors env_faulty" "never_nullish env_faulty"
  by (simp_all add: rejections_are_errors_def never_nullish_def env_faulty_def env_sample_def
      is_error_def)

lemma separate_sample: "separate env_sample p"
  by (simp add: separate_def env_sample_def startsWith_def)

section \<open>Theorems about the bulk deletion\<close>

definition criteria_of :: "request_body \<Rightarrow> int \<Rightarrow> rat option \<Rightarrow> criteria" where
  "criteria_of body days mb =
     \<lparr>inactiveDays = days, requireUnused = body_requireUnused body, maxStorageMB = mb,
      excludeActiveSubscriptions = body_excludeActiveSubscriptions body\<rparr>"

text \<open>The handler once the criteria are valid and the scan has returned.\<close>

lemma delete_inactive_users_scanned:
  assumes "parse_inactiveDays (body_inactiveDays body) = Inr days"
    and "parse_maxStorageMB (body_maxStorageMB body) = Inr mb"
    and "scan env caller now (criteria_of body days mb) w = Inr (candidates, tot)"
  shows "delete_inactive_users env caller now body w =
     (let crit = criteria_of body days mb; previewId = previewId_of env crit candidates in
      if body_dryRun body then
        (Preview \<lparr>preview_criteria = crit, preview_previewId = previewId,
                  inactiveUsers = candidates, totalUsers = length candidates,
                  totalSize = tot\<rparr>, w)
      else if \<not> valid_previewId (body_previewId body) then (Rejected 400 MissingPreviewId, w)
      else if \<not> valid_confirmCount (body_confirmCount body) then (Rejected 400 MissingConfirmCount, w)
      else if body_previewId body \<noteq> Some previewId then (Rejected 409 PreviewChanged, w)
      else if body_confirmCount body \<noteq> Fin (of_nat (length candidates)) then
        (Rejected 400 (ConfirmCountMismatch (length candidates)), w)
      else
        (case delete_candidates env caller (body_excludeActiveSubscriptions body) candidates [] 0 w of
           (None, w') \<Rightarrow> (ServerError, w')
         | (Some (results, deletedTotal), w') \<Rightarrow>
             (Executed \<lparr>exec_criteria = crit, exec_previewId = previewId,
                        deletedUsers = filter success results,
                        failedUsers = filter (\<lambda>r. \<not> success r) results,
                        totalDeleted = length (filter success results),
                        totalFailed = length (filter (\<lambda>r. \<not> success r) results),
                        totalDeletedSize = deletedTotal\<rparr>, w')))"
  using assms by (simp add: delete_inactive_users_def criteria_of_def Let_def)

lemma delete_inactive_users_thrown:
  assumes "parse_inactiveDays (body_inactiveDays body) = Inr days"
    and "parse_maxStorageMB (body_maxStorageMB body) = Inr mb"
    and "scan env caller now (criteria_of body days mb) w = Inl t"
  shows "delete_inactive_users env caller now body w = (outer_catch t, w)"
  using assms by (simp add: delete_inactive_users_def criteria_of_def Let_def)

lemma delete_inactive_users_world:
  "snd (delete_inactive_users env caller now body w) = w \<or>
   (\<exists>cs. snd (delete_inactive_users env caller now body w) =
      snd (delete_candidates env caller (body_excludeActiveSubscriptions body) cs [] 0 w))"
proof (cases "parse_inactiveDays (body_inactiveDays body)")
  case (Inl e)
  then show ?thesis by (simp add: delete_inactive_users_def)
next
  case days: (Inr days)
  show ?thesis
  proof (cases "parse_maxStorageMB (body_maxStorageMB body)")
    case (Inl e)
    with days show ?thesis by (simp add: delete_inactive_users_def)
  next
    case mb: (Inr mb)
    show ?thesis
    proof (cases "scan env caller now (criteria_of body days mb) w")
      case (Inl t)
      from delete_inactive_users_thrown [OF days mb Inl] show ?thesis by simp
    next
      case (Inr ct)
      obtain cs tot where ct: "ct = (cs, tot)" by (cases ct)
      obtain x w2 where del:
        "delete_candidates env caller (body_excludeActiveSubscriptions body) cs [] 0 w = (x, w2)"
        by (cases "delete_candidates env caller (body_excludeActiveSubscriptions body) cs [] 0 w")
      have "snd (delete_inactive_users env caller now body w) = w \<or>
            snd (delete_inactive_users env caller now body w) = w2"
        unfolding delete_inactive_users_scanned [OF days mb Inr [unfolded ct]]
        using del by (cases x) (auto simp: Let_def)
      with del show ?thesis by (metis snd_conv)
    qed
  qed
qed

text \<open>A response that is a rejection or comes from the scan leaves the state as it was.\<close>

lemma delete_inactive_users_rejected_unchanged:
  assumes "fst (delete_inactive_users env caller now body w) = Rejected code e"
  shows "snd (delete_inactive_users env caller now body w) = w"
proof (cases "parse_inactiveDays (body_inactiveDays body)")
  case (Inl e)
  then show ?thesis by (simp add: delete_inactive_users_def)
next
  case days: (Inr days)
  show ?thesis
  proof (cases "parse_maxStorageMB (body_maxStorageMB body)")
    case (Inl e)
    with days show ?thesis by (simp add: delete_inactive_users_def)
  next
    case mb: (Inr mb)
    show ?thesis
    proof (cases "scan env caller now (criteria_of body days mb) w")
      case (Inl t)
      from delete_inactive_users_thrown [OF days mb Inl] show ?thesis by simp
    next
      case (Inr ct)
      obtain cs tot where ct: "ct = (cs, tot)" by (cases ct)
      obtain x w2 where del:
        "delete_candidates env caller (body_excludeActiveSubscriptions body) cs [] 0 w = (x, w2)"
        by (cases "delete_candidates env caller (body_excludeActiveSubscriptions body) cs [] 0 w")
      from assms show ?thesis
        unfolding delete_inactive_users_scanned [OF days mb Inr [unfolded ct]]
        using del by (cases x) (auto simp: Let_def split: if_splits)
    qed
  qed
qed

lemma delete_inactive_users_invalid_confirmation:
  assumes "\<not> body_dryRun body"
    and "\<not> valid_previewId (body_previewId body) \<or> \<not> valid_confirmCount (body_confirmCount body)"
  shows "snd (delete_inactive_users env caller now body w) = w \<and>
     ((\<exists>code e. fst (delete_inactive_users env caller now body w) = Rejected code e) \<or>
      fst (delete_inactive_users env caller now body w) = ServerError \<or>
      fst (delete_inactive_users env caller now body w) = Unhandled)"
proof (cases "parse_inactiveDays (body_inactiveDays body)")
  case (Inl e)
  then show ?thesis by (simp add: delete_inactive_users_def)
next
  case days: (Inr days)
  show ?thesis
  proof (cases "parse_maxStorageMB (body_maxStorageMB body)")
    case (Inl e)
    with days show ?thesis by (simp add: delete_inactive_users_def)
  next
    case mb: (Inr mb)
    show ?thesis
    proof (cases "scan env caller now (criteria_of body days mb) w")
      case (Inl t)
      from delete_inactive_users_thrown [OF days mb Inl] show ?thesis
        by (cases t) (simp_all add: outer_catch_def)
    next
      case (Inr ct)
      obtain cs tot where ct: "ct = (cs, tot)" by (cases ct)
      from assms show ?thesis
        unfolding delete_inactive_users_scanned [OF days mb Inr [unfolded ct]]
        by (auto simp: Let_def)
    qed
  qed
qed

text \<open>
  C1. No candidate of the scan has the caller's handle or the default account's handle,
  and each is built from a record without the admin flag; a record with one of the three
  protections yields no candidate. In the execution pass a candidate whose handle is the
  caller's or the default account's, or whose re-fetched record is an admin, gets the
  failure "Protected user cannot be deleted" and the state stays as it was. Over a whole
  pass, and over a whole call of the route, the account record and the directory tree of
  a protected handle stay as they were, provided its key and root directory are not
  shared with another handle.
\<close>

theorem protected_accounts_survive_bulk_pass:
  "(scan env caller now crit w = Inr (candidates, tot) \<longrightarrow>
      (\<forall>c \<in> set candidates.
         cand_handle c \<noteq> caller \<and> cand_handle c \<noteq> DEFAULT_USER_handle env \<and>
         (\<exists>u \<in> set (user_values (storage w) (KEY_PREFIX env)).
            handle u = cand_handle c \<and> \<not> admin u))) \<and>
   (handle u = caller \<or> handle u = DEFAULT_USER_handle env \<or> admin u \<longrightarrow>
      scan_user env caller now crit bd w u = Inr None) \<and>
   (getItem_rejects env (toKey env (cand_handle c)) = None \<and>
    user_at w' (toKey env (cand_handle c)) = Some v \<and>
    (cand_handle c = caller \<or> cand_handle c = DEFAULT_USER_handle env \<or> admin v) \<longrightarrow>
      delete_candidate env caller excl c w' =
        (Some (failed_result c ''Protected user cannot be deleted'' None), w')) \<and>
   (protected env caller w' p \<and> separate env p \<longrightarrow>
      account_of env (snd (delete_candidates env caller excl cs rs t w')) p =
        account_of env w' p) \<and>
   (protected env caller w p \<and> separate env p \<longrightarrow>
      account_of env (snd (delete_inactive_users env caller now body w)) p = account_of env w p)"
proof (intro conjI ballI impI)
  fix c assume "scan env caller now crit w = Inr (candidates, tot)" "c \<in> set candidates"
  from scan_candidates [OF this] obtain b x
    where x: "x \<in> set (user_values (storage w) (KEY_PREFIX env))"
      "scan_user env caller now crit b w x = Inr (Some c)"
    by blast
  from scan_user_Some(1-4) [OF x(2)] x(1)
  show "cand_handle c \<noteq> caller" "cand_handle c \<noteq> DEFAULT_USER_handle env"
    "\<exists>u \<in> set (user_values (storage w) (KEY_PREFIX env)). handle u = cand_handle c \<and> \<not> admin u"
    by auto
next
  assume "handle u = caller \<or> handle u = DEFAULT_USER_handle env \<or> admin u"
  then show "scan_user env caller now crit bd w u = Inr None" by (rule scan_user_protected)
next
  assume "getItem_rejects env (toKey env (cand_handle c)) = None \<and>
    user_at w' (toKey env (cand_handle c)) = Some v \<and>
    (cand_handle c = caller \<or> cand_handle c = DEFAULT_USER_handle env \<or> admin v)"
  then show "delete_candidate env caller excl c w' =
        (Some (failed_result c ''Protected user cannot be deleted'' None), w')"
    by (auto simp: delete_candidate_def)
next
  assume "protected env caller w' p \<and> separate env p"
  then show "account_of env (snd (delete_candidates env caller excl cs rs t w')) p =
        account_of env w' p"
    using delete_candidates_preserves by blast
next
  assume a: "protected env caller w p \<and> separate env p"
  from delete_inactive_users_world [of env caller now body w]
  show "account_of env (snd (delete_inactive_users env caller now body w)) p = account_of env w p"
  proof
    assume "snd (delete_inactive_users env caller now body w) = w"
    then show ?thesis by simp
  next
    assume "\<exists>cs. snd (delete_inactive_users env caller now body w) =
      snd (delete_candidates env caller (body_excludeActiveSubscriptions body) cs [] 0 w)"
    then show ?thesis using a delete_candidates_preserves by metis
  qed
qed

theorem protected_accounts_survive_bulk_pass_witness:
  "scan env_sample ''admin'' 8640000000 criteria_sample world_sample =
     Inr ([carol_candidate, dan_candidate], 150) \<and>
   cand_handle dan_candidate \<noteq> ''admin'' \<and>
   cand_handle dan_candidate \<noteq> DEFAULT_USER_handle env_sample \<and>
   protected env_sample ''admin'' world_promoted ''carol'' \<and> separate env_sample ''carol'' \<and>
   user_at world_promoted ''user:carol'' = Some (user_sample ''carol'' True) \<and>
   delete_candidate env_sample ''admin'' True carol_candidate world_promoted =
     (Some (failed_result carol_candidate ''Protected user cannot be deleted'' None), world_promoted) \<and>
   account_of env_sample
     (snd (delete_candidates env_sample ''admin'' True [carol_candidate] [] 0 world_promoted))
     ''carol'' = account_of env_sample world_promoted ''carol''"
proof -
  have p: "protected env_sample ''admin'' world_promoted ''carol''"
    by (simp add: protected_def user_at_def getItem_def world_promoted_def world_sample_def
        env_sample_def user_sample_def)
  have u: "user_at world_promoted ''user:carol'' = Some (user_sample ''carol'' True)"
    by (simp add: user_at_def getItem_def world_promoted_def world_sample_def)
  have g: "getItem_rejects env_sample (toKey env_sample (cand_handle carol_candidate)) = None"
    "toKey env_sample (cand_handle carol_candidate) = ''user:carol''"
    "admin (user_sample ''carol'' True)"
    by (simp_all add: env_sample_def carol_candidate_def user_sample_def)
  have "\<forall>c \<in> set [carol_candidate, dan_candidate].
      cand_handle c \<noteq> ''admin'' \<and> cand_handle c \<noteq> DEFAULT_USER_handle env_sample"
    using protected_accounts_survive_bulk_pass
      [where env = env_sample and caller = "''admin''" and now = 8640000000
         and crit = criteria_sample and w = world_sample
         and candidates = "[carol_candidate, dan_candidate]" and tot = 150, THEN conjunct1]
      scan_sample
    by blast
  then have "cand_handle dan_candidate \<noteq> ''admin''"
    "cand_handle dan_candidate \<noteq> DEFAULT_USER_handle env_sample"
    by simp_all
  with scan_sample show ?thesis
    using protected_accounts_survive_bulk_pass
      [where env = env_sample and caller = "''admin''" and w' = world_promoted and p = "''carol''"
         and c = carol_candidate and v = "user_sample ''carol'' True" and excl = True
         and cs = "[carol_candidate]" and rs = "[]" and t = 0]
      p u g separate_sample [of "''carol''"]
    by simp
qed

text \<open>
  C2. A call that is not a dry run and whose token is missing or shorter than 8, whose
  count is not a non-negative integer, whose token differs from the token of the fresh
  scan, or whose count differs from the number of fresh candidates, is rejected and
  leaves the state as it was: no record, avatar or directory is removed. With valid
  criteria and a scan that returns, the diagnostic is the first that applies of: missing
  token (400), missing count (400), preview changed (409), count mismatch (400). With
  invalid criteria the call is rejected for them before the scan, and when a call of the
  scan throws the handler answers from its outer \<open>catch\<close>; in both cases, and for every
  rejected call, the state stays as it was.
\<close>

theorem execute_rejected_without_deletions:
  "(\<not> body_dryRun body \<and>
    (\<not> valid_previewId (body_previewId body) \<or> \<not> valid_confirmCount (body_confirmCount body)) \<longrightarrow>
      snd (delete_inactive_users env caller now body w) = w \<and>
      ((\<exists>code e. fst (delete_inactive_users env caller now body w) = Rejected code e) \<or>
       fst (delete_inactive_users env caller now body w) = ServerError \<or>
       fst (delete_inactive_users env caller now body w) = Unhandled)) \<and>
   ((\<exists>code e. fst (delete_inactive_users env caller now body w) = Rejected code e) \<longrightarrow>
      snd (delete_inactive_users env caller now body w) = w) \<and>
   (parse_inactiveDays (body_inactiveDays body) = Inr days \<and>
    parse_maxStorageMB (body_maxStorageMB body) = Inr mb \<and>
    crit = \<lparr>inactiveDays = days, requireUnused = body_requireUnused body, maxStorageMB = mb,
            excludeActiveSubscriptions = body_excludeActiveSubscriptions body\<rparr> \<and>
    scan env caller now crit w = Inl thrown_value \<longrightarrow>
      delete_inactive_users env caller now body w = (outer_catch thrown_value, w)) \<and>
   (\<not> body_dryRun body \<and>
    parse_inactiveDays (body_inactiveDays body) = Inr days \<and>
    parse_maxStorageMB (body_maxStorageMB body) = Inr mb \<and>
    crit = \<lparr>inactiveDays = days, requireUnused = body_requireUnused body, maxStorageMB = mb,
            excludeActiveSubscriptions = body_excludeActiveSubscriptions body\<rparr> \<and>
    scan env caller now crit w = Inr (candidates, tot) \<and>
    (\<not> valid_previewId (body_previewId body) \<or>
     \<not> valid_confirmCount (body_confirmCount body) \<or>
     body_previewId body \<noteq> Some (previewId_of env crit candidates) \<or>
     body_confirmCount body \<noteq> Fin (of_nat (length candidates))) \<longrightarrow>
      delete_inactive_users env caller now body w =
        (if \<not> valid_previewId (body_previewId body) then Rejected 400 MissingPreviewId
         else if \<not> valid_confirmCount (body_confirmCount body) then Rejected 400 MissingConfirmCount
         else if body_previewId body \<noteq> Some (previewId_of env crit candidates)
         then Rejected 409 PreviewChanged
         else Rejected 400 (ConfirmCountMismatch (length candidates)), w))"
proof (intro conjI impI)
  assume "\<not> body_dryRun body \<and>
    (\<not> valid_previewId (body_previewId body) \<or> \<not> valid_confirmCount (body_confirmCount body))"
  then show "snd (delete_inactive_users env caller now body w) = w"
    "(\<exists>code e. fst (delete_inactive_users env caller now body w) = Rejected code e) \<or>
       fst (delete_inactive_users env caller now body w) = ServerError \<or>
       fst (delete_inactive_users env caller now body w) = Unhandled"
    using delete_inactive_users_invalid_confirmation [of body env caller now w] by blast+
next
  assume "\<exists>code e. fst (delete_inactive_users env caller now body w) = Rejected code e"
  then show "snd (delete_inactive_users env caller now body w) = w"
    using delete_inactive_users_rejected_unchanged by blast
next
  assume a: "parse_inactiveDays (body_inactiveDays body) = Inr days \<and>
    parse_maxStorageMB (body_maxStorageMB body) = Inr mb \<and>
    crit = \<lparr>inactiveDays = days, requireUnused = body_requireUnused body, maxStorageMB = mb,
            excludeActiveSubscriptions = body_excludeActiveSubscriptions body\<rparr> \<and>
    scan env caller now crit w = Inl thrown_value"
  then have c: "crit = criteria_of body days mb" by (simp add: criteria_of_def)
  from a have "scan env caller now (criteria_of body days mb) w = Inl thrown_value"
    unfolding c by blast
  with a show "delete_inactive_users env caller now body w = (outer_catch thrown_value, w)"
    using delete_inactive_users_thrown by blast
next
  assume a: "\<not> body_dryRun body \<and>
    parse_inactiveDays (body_inactiveDays body) = Inr days \<and>
    parse_maxStorageMB (body_maxStorageMB body) = Inr mb \<and>
    crit = \<lparr>inactiveDays = days, requireUnused = body_requireUnused body, maxStorageMB = mb,
            excludeActiveSubscriptions = body_excludeActiveSubscriptions body\<rparr> \<and>
    scan env caller now crit w = Inr (candidates, tot) \<and>
    (\<not> valid_previewId (body_previewId body) \<or>
     \<not> valid_confirmCount (body_confirmCount body) \<or>
     body_previewId body \<noteq> Some (previewId_of env crit candidates) \<or>
     body_confirmCount body \<noteq> Fin (of_nat (length candidates)))"
  then have c: "crit = criteria_of body days mb" by (simp add: criteria_of_def)
  from a have s: "scan env caller now (criteria_of body days mb) w = Inr (candidates, tot)"
    unfolding c by blast
  from a have p: "parse_inactiveDays (body_inactiveDays body) = Inr days"
    "parse_maxStorageMB (body_maxStorageMB body) = Inr mb" by blast+
  from a have n: "\<not> body_dryRun body" "\<not> valid_previewId (body_previewId body) \<or>
     \<not> valid_confirmCount (body_confirmCount body) \<or>
     body_previewId body \<noteq> Some (previewId_of env (criteria_of body days mb) candidates) \<or>
     body_confirmCount body \<noteq> Fin (of_nat (length candidates))"
    unfolding c by blast+
  show "delete_inactive_users env caller now body w =
        (if \<not> valid_previewId (body_previewId body) then Rejected 400 MissingPreviewId
         else if \<not> valid_confirmCount (body_confirmCount body) then Rejected 400 MissingConfirmCount
         else if body_previewId body \<noteq> Some (previewId_of env crit candidates)
         then Rejected 409 PreviewChanged
         else Rejected 400 (ConfirmCountMismatch (length candidates)), w)"
    unfolding delete_inactive_users_scanned [OF p s] c using n by (auto simp: Let_def)
qed

lemma previewId_length: "length (JSON_stringify_preview env crit hs) \<ge> 8"
  by (simp add: JSON_stringify_preview_def json_object_def json_quote_def)

definition body_sample :: request_body where
  "body_sample =
     \<lparr>body_dryRun = False, body_inactiveDays = Fin 60, body_requireUnused = False,
      body_excludeActiveSubscriptions = True, body_maxStorageMB = None,
      body_previewId = None, body_confirmCount = Fin 2\<rparr>"

lemma parse_sample:
  "parse_inactiveDays (Fin 60) = Inr 60" "parse_maxStorageMB None = Inr None"
  by (simp_all add: parse_inactiveDays_def parse_maxStorageMB_def)

theorem execute_rejected_without_deletions_witness:
  "\<not> body_dryRun body_sample \<and> \<not> valid_previewId (body_previewId body_sample) \<and>
   scan env_sample ''admin'' 8640000000 criteria_sample world_sample =
     Inr ([carol_candidate, dan_candidate], 150) \<and>
   delete_inactive_users env_sample ''admin'' 8640000000 body_sample world_sample =
     (Rejected 400 MissingPreviewId, world_sample) \<and>
   \<not> body_dryRun (body_sample\<lparr>body_previewId := Some ''0123456789abcdef''\<rparr>) \<and>
   Some ''0123456789abcdef'' \<noteq>
     Some (previewId_of env_sample criteria_sample [carol_candidate, dan_candidate]) \<and>
   delete_inactive_users env_sample ''admin'' 8640000000
       (body_sample\<lparr>body_previewId := Some ''0123456789abcdef''\<rparr>) world_sample =
     (Rejected 409 PreviewChanged, world_sample) \<and>
   scan env_offline ''admin'' 8640000000 criteria_sample world_sample = Inl (Error ''EIO'') \<and>
   delete_inactive_users env_offline ''admin'' 8640000000 body_sample world_sample =
     (ServerError, world_sample)"
proof -
  have stale: "Some ''0123456789abcdef'' \<noteq>
     Some (previewId_of env_sample criteria_sample [carol_candidate, dan_candidate])"
    by (simp add: previewId_of_def env_sample_def JSON_stringify_preview_def json_object_def)
  have c: "criteria_sample = \<lparr>inactiveDays = 60, requireUnused = body_requireUnused body_sample,
      maxStorageMB = None,
      excludeActiveSubscriptions = body_excludeActiveSubscriptions body_sample\<rparr>"
    by (simp add: criteria_sample_def body_sample_def)
  let ?b = "body_sample\<lparr>body_previewId := Some ''0123456789abcdef''\<rparr>"
  have c': "criteria_sample = \<lparr>inactiveDays = 60, requireUnused = body_requireUnused ?b,
      maxStorageMB = None, excludeActiveSubscriptions = body_excludeActiveSubscriptions ?b\<rparr>"
    by (simp add: criteria_sample_def body_sample_def)
  have v: "valid_previewId (Some ''0123456789abcdef'')" "valid_confirmCount (Fin 2)"
    "\<not> valid_previewId None"
    by (simp_all add: valid_previewId_def valid_confirmCount_def)
  show ?thesis
    using execute_rejected_without_deletions
        [where body = body_sample and days = 60 and mb = None and crit = criteria_sample
           and env = env_sample and caller = "''admin''" and now = 8640000000 and w = world_sample
           and candidates = "[carol_candidate, dan_candidate]" and tot = 150,
           THEN conjunct2, THEN conjunct2, THEN conjunct2]
      execute_rejected_without_deletions
        [where body = ?b and days = 60 and mb = None and crit = criteria_sample
           and env = env_sample and caller = "''admin''" and now = 8640000000 and w = world_sample
           and candidates = "[carol_candidate, dan_candidate]" and tot = 150,
           THEN conjunct2, THEN conjunct2, THEN conjunct2]
      execute_rejected_without_deletions
        [where body = body_sample and days = 60 and mb = None and crit = criteria_sample
           and env = env_offline and caller = "''admin''" and now = 8640000000 and w = world_sample
           and thrown_value = "Error ''EIO''", THEN conjunct2, THEN conjunct2, THEN conjunct1]
      stale c c' v parse_sample scan_sample scan_offline
    by (simp add: body_sample_def outer_catch_def)
qed

lemma length_filter_partition:
  "length (filter P xs) + length (filter (\<lambda>x. \<not> P x) xs) = length xs"
  by (induction xs) auto

text \<open>
  C7. When what the store, the file system, the email service, the monitor and
  \<open>getUserDirectories\<close> throw is never \<open>null\<close> or \<open>undefined\<close>, the pass runs to its end
  whatever they reject: every candidate yields exactly one entry of \<open>results\<close>, in
  order; when they throw \<open>Error\<close> objects only, each entry is a success or a failure with
  its message. The candidates after a failing one are processed by the same loop from
  the state the earlier ones have left. A call that passes the upfront checks then
  answers with the report, the entries split into deleted and failed, and not with an
  error.
\<close>

theorem candidate_failures_stay_local:
  "(never_nullish env \<longrightarrow>
      (\<exists>results total w'.
         delete_candidates env caller excl cs [] 0 w = (Some (results, total), w') \<and>
         map res_handle results = map cand_handle cs \<and>
         (rejections_are_errors env \<longrightarrow> (\<forall>r \<in> set results. success r \<longleftrightarrow> error r = None)))) \<and>
   delete_candidates env caller excl (xs @ ys) rs t w =
     (case delete_candidates env caller excl xs rs t w of
        (None, w1) \<Rightarrow> (None, w1)
      | (Some (rs1, t1), w1) \<Rightarrow> delete_candidates env caller excl ys rs1 t1 w1) \<and>
   (never_nullish env \<and>
    \<not> body_dryRun body \<and>
    parse_inactiveDays (body_inactiveDays body) = Inr days \<and>
    parse_maxStorageMB (body_maxStorageMB body) = Inr mb \<and>
    crit = \<lparr>inactiveDays = days, requireUnused = body_requireUnused body, maxStorageMB = mb,
            excludeActiveSubscriptions = body_excludeActiveSubscriptions body\<rparr> \<and>
    scan env caller now crit w = Inr (candidates, tot) \<and>
    valid_previewId (body_previewId body) \<and>
    valid_confirmCount (body_confirmCount body) \<and>
    body_previewId body = Some (previewId_of env crit candidates) \<and>
    body_confirmCount body = Fin (of_nat (length candidates)) \<longrightarrow>
      (\<exists>rep results total w'.
         delete_candidates env caller (excludeActiveSubscriptions crit) candidates [] 0 w =
           (Some (results, total), w') \<and>
         delete_inactive_users env caller now body w = (Executed rep, w') \<and>
         map res_handle results = map cand_handle candidates \<and>
         deletedUsers rep = filter success results \<and>
         failedUsers rep = filter (\<lambda>r. \<not> success r) results \<and>
         totalDeleted rep + totalFailed rep = length candidates))"
proof (intro conjI impI)
  have h: "\<exists>results total w'.
         delete_candidates env caller excl cs [] 0 w = (Some (results, total), w') \<and>
         map res_handle results = map cand_handle cs \<and>
         (rejections_are_errors env \<longrightarrow> (\<forall>r \<in> set results. success r \<longleftrightarrow> error r = None))"
    if nn: "never_nullish env" for excl cs
  proof -
    from delete_candidates_results [OF nn, of caller excl cs "[]" 0 w]
    obtain results total where r:
      "fst (delete_candidates env caller excl cs [] 0 w) = Some (results, total)"
      "map res_handle results = map cand_handle cs"
      by auto
    have "\<forall>r \<in> set results. success r \<longleftrightarrow> error r = None" if "rejections_are_errors env"
      using delete_candidates_success_iff [OF that _ r(1)] by simp
    with r show ?thesis
      by (cases "delete_candidates env caller excl cs [] 0 w") auto
  qed
  then show "never_nullish env \<Longrightarrow> \<exists>results total w'.
         delete_candidates env caller excl cs [] 0 w = (Some (results, total), w') \<and>
         map res_handle results = map cand_handle cs \<and>
         (rejections_are_errors env \<longrightarrow> (\<forall>r \<in> set results. success r \<longleftrightarrow> error r = None))" .
  show "delete_candidates env caller excl (xs @ ys) rs t w =
     (case delete_candidates env caller excl xs rs t w of
        (None, w1) \<Rightarrow> (None, w1)
      | (Some (rs1, t1), w1) \<Rightarrow> delete_candidates env caller excl ys rs1 t1 w1)"
    by (rule delete_candidates_append)
  assume a: "never_nullish env \<and>
    \<not> body_dryRun body \<and>
    parse_inactiveDays (body_inactiveDays body) = Inr days \<and>
    parse_maxStorageMB (body_maxStorageMB body) = Inr mb \<and>
    crit = \<lparr>inactiveDays = days, requireUnused = body_requireUnused body, maxStorageMB = mb,
            excludeActiveSubscriptions = body_excludeActiveSubscriptions body\<rparr> \<and>
    scan env caller now crit w = Inr (candidates, tot) \<and>
    valid_previewId (body_previewId body) \<and>
    valid_confirmCount (body_confirmCount body) \<and>
    body_previewId body = Some (previewId_of env crit candidates) \<and>
    body_confirmCount body = Fin (of_nat (length candidates))"
  then have nn: "never_nullish env" by blast
  from a have c: "crit = criteria_of body days mb" by (simp add: criteria_of_def)
  from a have s: "scan env caller now (criteria_of body days mb) w = Inr (candidates, tot)"
    unfolding c by blast
  from a have p: "parse_inactiveDays (body_inactiveDays body) = Inr days"
    "parse_maxStorageMB (body_maxStorageMB body) = Inr mb" by blast+
  from a have f: "\<not> body_dryRun body" "valid_previewId (body_previewId body)"
    "valid_confirmCount (body_confirmCount body)"
    "body_previewId body = Some (previewId_of env (criteria_of body days mb) candidates)"
    "body_confirmCount body = Fin (of_nat (length candidates))"
    unfolding c by blast+
  have x: "excludeActiveSubscriptions crit = body_excludeActiveSubscriptions body"
    unfolding c by (simp add: criteria_of_def)
  from h [OF nn, of "body_excludeActiveSubscriptions body" candidates]
  obtain results total w' where r:
    "delete_candidates env caller (body_excludeActiveSubscriptions body) candidates [] 0 w =
       (Some (results, total), w')"
    "map res_handle results = map cand_handle candidates"
    by blast
  let ?rep = "\<lparr>exec_criteria = criteria_of body days mb,
                exec_previewId = previewId_of env (criteria_of body days mb) candidates,
                deletedUsers = filter success results,
                failedUsers = filter (\<lambda>r. \<not> success r) results,
                totalDeleted = length (filter success results),
                totalFailed = length (filter (\<lambda>r. \<not> success r) results),
                totalDeletedSize = total\<rparr>"
  have e: "delete_inactive_users env caller now body w = (Executed ?rep, w')"
    unfolding delete_inactive_users_scanned [OF p s] using f r(1) by (simp add: Let_def)
  have "length results = length candidates" using r(2) by (metis length_map)
  then have l: "totalDeleted ?rep + totalFailed ?rep = length candidates"
    by (simp add: length_filter_partition)
  show "\<exists>rep results total w'.
         delete_candidates env caller (excludeActiveSubscriptions crit) candidates [] 0 w =
           (Some (results, total), w') \<and>
         delete_inactive_users env caller now body w = (Executed rep, w') \<and>
         map res_handle results = map cand_handle candidates \<and>
         deletedUsers rep = filter success results \<and>
         failedUsers rep = filter (\<lambda>r. \<not> success r) results \<and>
         totalDeleted rep + totalFailed rep = length candidates"
    unfolding x
    by (rule exI [of _ ?rep], rule exI [of _ results], rule exI [of _ total], rule exI [of _ w'])
       (use r e l in simp)
qed

lemma delete_candidates_faulty:
  "delete_candidates env_faulty ''admin'' True [carol_candidate, dan_candidate] [] 0 world_sample =
     (Some ([failed_result carol_candidate ''EIO'' (Some (False, None)),
       \<lparr>res_handle = ''dan'', res_name = ''dan'', success = True, error = None,
        deletedSize = Some 50, emailInfo = Some (False, None)\<rparr>],
      50),
      resetUserStats ''dan'' (rm [''data'', ''dan''] (removeItem ''avatar:dan''
        (removeItem ''user:dan'' world_sample))))"
  by (simp add: delete_candidate_def env_faulty_def env_sample_def carol_candidate_def
      dan_candidate_def user_at_def getItem_def world_sample_def user_sample_def
      subscription_active_def notify_def remove_account_def reset_stats_def removeItem_def
      existsSync_def resolve_def catch_candidate_def
      Let_def rm_def resetUserStats_def failed_result_def)

theorem candidate_failures_stay_local_witness:
  "never_nullish env_faulty \<and> rejections_are_errors env_faulty \<and>
   scan env_faulty ''admin'' 8640000000 criteria_sample world_sample =
     Inr ([carol_candidate, dan_candidate], 150) \<and>
   (\<exists>results total w'.
      delete_candidates env_faulty ''admin'' True [carol_candidate, dan_candidate] [] 0 world_sample =
        (Some (results, total), w') \<and>
      map res_handle results = [''carol'', ''dan''] \<and>
      map success results = [False, True] \<and>
      map error results = [Some ''EIO'', None]) \<and>
   (\<exists>rep w'. delete_inactive_users env_faulty ''admin'' 8640000000
              (body_sample\<lparr>body_previewId :=
                 Some (previewId_of env_faulty criteria_sample [carol_candidate, dan_candidate])\<rparr>)
              world_sample = (Executed rep, w') \<and>
          map res_handle (deletedUsers rep) = [''dan''] \<and>
          map res_handle (failedUsers rep) = [''carol''] \<and>
          totalDeleted rep + totalFailed rep = 2)"
proof -
  let ?b = "body_sample\<lparr>body_previewId :=
     Some (previewId_of env_faulty criteria_sample [carol_candidate, dan_candidate])\<rparr>"
  have c: "criteria_sample = \<lparr>inactiveDays = 60, requireUnused = body_requireUnused ?b,
      maxStorageMB = None, excludeActiveSubscriptions = body_excludeActiveSubscriptions ?b\<rparr>"
    by (simp add: criteria_sample_def body_sample_def)
  have v: "valid_previewId (body_previewId ?b)" "valid_confirmCount (body_confirmCount ?b)"
    using previewId_length [of env_faulty criteria_sample "sort (map cand_handle [carol_candidate, dan_candidate])"]
    by (simp_all add: valid_previewId_def valid_confirmCount_def body_sample_def previewId_of_def
        env_faulty_def env_sample_def)
  have b: "\<not> body_dryRun ?b" "body_inactiveDays ?b = Fin 60" "body_maxStorageMB ?b = None"
    "body_confirmCount ?b = Fin (of_nat (length [carol_candidate, dan_candidate]))"
    "body_previewId ?b = Some (previewId_of env_faulty criteria_sample [carol_candidate, dan_candidate])"
    by (simp_all add: body_sample_def)
  have x: "excludeActiveSubscriptions criteria_sample = True"
    by (simp add: criteria_sample_def)
  have s: "scan env_faulty ''admin'' 8640000000 criteria_sample world_sample =
      Inr ([carol_candidate, dan_candidate], 150)"
    by (simp add: scan_faulty scan_sample)
  have "\<exists>rep results total w'.
         delete_candidates env_faulty ''admin'' (excludeActiveSubscriptions criteria_sample)
           [carol_candidate, dan_candidate] [] 0 world_sample = (Some (results, total), w') \<and>
         delete_inactive_users env_faulty ''admin'' 8640000000 ?b world_sample = (Executed rep, w') \<and>
         map res_handle results = map cand_handle [carol_candidate, dan_candidate] \<and>
         deletedUsers rep = filter success results \<and>
         failedUsers rep = filter (\<lambda>r. \<not> success r) results \<and>
         totalDeleted rep + totalFailed rep = length [carol_candidate, dan_candidate]"
    using candidate_failures_stay_local
        [where env = env_faulty and caller = "''admin''" and now = 8640000000 and body = ?b
           and w = world_sample and days = 60 and mb = None and crit = criteria_sample
           and candidates = "[carol_candidate, dan_candidate]" and tot = 150,
           THEN conjunct2, THEN conjunct2]
      c v b s parse_sample errors_faulty(2)
    by (simp only: simp_thms)
  then obtain rep results total w' where rep:
    "delete_candidates env_faulty ''admin'' True [carol_candidate, dan_candidate] [] 0 world_sample
       = (Some (results, total), w')"
    "delete_inactive_users env_faulty ''admin'' 8640000000 ?b world_sample = (Executed rep, w')"
    "deletedUsers rep = filter success results" "failedUsers rep = filter (\<lambda>r. \<not> success r) results"
    "totalDeleted rep + totalFailed rep = length [carol_candidate, dan_candidate]"
    unfolding x by blast
  have ev: "results = [failed_result carol_candidate ''EIO'' (Some (False, None)),
       \<lparr>res_handle = ''dan'', res_name = ''dan'', success = True, error = None,
        deletedSize = Some 50, emailInfo = Some (False, None)\<rparr>]"
    using rep(1) unfolding delete_candidates_faulty by auto
  have h: "res_handle (failed_result carol_candidate ''EIO'' (Some (False, None))) = ''carol''"
    "\<not> success (failed_result carol_candidate ''EIO'' (Some (False, None)))"
    by (simp_all add: failed_result_def carol_candidate_def)
  have d1: "map res_handle (deletedUsers rep) = [''dan'']"
    and d2: "map res_handle (failedUsers rep) = [''carol'']"
    unfolding rep(3,4) ev using h by simp_all
  have d3: "totalDeleted rep + totalFailed rep = 2" using rep(5) by simp
  have "\<exists>rep w'. delete_inactive_users env_faulty ''admin'' 8640000000 ?b world_sample
            = (Executed rep, w') \<and>
          map res_handle (deletedUsers rep) = [''dan''] \<and>
          map res_handle (failedUsers rep) = [''carol''] \<and>
          totalDeleted rep + totalFailed rep = 2"
    by (rule exI [of _ rep], rule exI [of _ w']) (simp only: rep(2) d1 d2 d3 simp_thms)
  moreover have "\<exists>results total w'.
      delete_candidates env_faulty ''admin'' True [carol_candidate, dan_candidate] [] 0 world_sample =
        (Some (results, total), w') \<and>
      map res_handle results = [''carol'', ''dan''] \<and>
      map success results = [False, True] \<and>
      map error results = [Some ''EIO'', None]"
    unfolding delete_candidates_faulty
    by (simp add: failed_result_def carol_candidate_def)
  ultimately show ?thesis using errors_faulty s by (simp only: simp_thms)
qed

text \<open>
  When removing the avatar of \<open>carol\<close> rejects with \<open>undefined\<close>, the \<open>catch\<close> of her
  round throws, the loop is left and the handler answers 500: the record of \<open>carol\<close> is
  gone, her directory and the whole account of \<open>dan\<close> are still there, and there is no
  report.
\<close>

lemma nullish_rejection_leaves_the_loop:
  "delete_candidates env_nullish ''admin'' True [carol_candidate, dan_candidate] [] 0 world_sample =
     (None, removeItem ''user:carol'' world_sample) \<and>
   delete_inactive_users env_nullish ''admin'' 8640000000
      (body_sample\<lparr>body_previewId :=
         Some (previewId_of env_nullish criteria_sample [carol_candidate, dan_candidate])\<rparr>)
      world_sample = (ServerError, removeItem ''user:carol'' world_sample)"
proof -
  let ?b = "body_sample\<lparr>body_previewId :=
     Some (previewId_of env_nullish criteria_sample [carol_candidate, dan_candidate])\<rparr>"
  have d: "delete_candidates env_nullish ''admin'' True [carol_candidate, dan_candidate] [] 0
      world_sample = (None, removeItem ''user:carol'' world_sample)"
    by (simp add: delete_candidate_def env_nullish_def env_sample_def carol_candidate_def
      user_at_def getItem_def world_sample_def user_sample_def
      subscription_active_def notify_def remove_account_def removeItem_def
      catch_candidate_def Let_def)
  have c: "criteria_of ?b 60 None = criteria_sample"
    by (simp add: criteria_sample_def body_sample_def criteria_of_def)
  have v: "valid_previewId (body_previewId ?b)" "valid_confirmCount (body_confirmCount ?b)"
    using previewId_length [of env_nullish criteria_sample "sort (map cand_handle [carol_candidate, dan_candidate])"]
    by (simp_all add: valid_previewId_def valid_confirmCount_def body_sample_def previewId_of_def
        env_nullish_def env_sample_def)
  have b: "\<not> body_dryRun ?b" "body_excludeActiveSubscriptions ?b"
    "body_confirmCount ?b = Fin (of_nat (length [carol_candidate, dan_candidate]))"
    "body_previewId ?b = Some (previewId_of env_nullish criteria_sample [carol_candidate, dan_candidate])"
    by (simp_all add: body_sample_def)
  have p: "parse_inactiveDays (body_inactiveDays ?b) = Inr 60"
    "parse_maxStorageMB (body_maxStorageMB ?b) = Inr None"
    using parse_sample by (simp_all add: body_sample_def)
  have s: "scan env_nullish ''admin'' 8640000000 (criteria_of ?b 60 None) world_sample =
      Inr ([carol_candidate, dan_candidate], 150)"
    unfolding c by (simp add: scan_nullish scan_sample)
  have "delete_inactive_users env_nullish ''admin'' 8640000000 ?b world_sample =
      (ServerError, removeItem ''user:carol'' world_sample)"
    unfolding delete_inactive_users_scanned [OF p s] c using v b d by (simp add: Let_def)
  with d show ?thesis by (simp only: simp_thms)
qed

definition stats_heartbeat_only :: load_stats where
  "stats_heartbeat_only = \<lparr>lastActivity = None, lastHeartbeat = Some 8639999000\<rparr>"

definition stats_both :: load_stats where
  "stats_both = \<lparr>lastActivity = Some 5000, lastHeartbeat = Some 7000\<rparr>"

definition world_heartbeat :: world where
  "world_heartbeat = world_sample\<lparr>userLoadStats := [''carol'' \<mapsto> stats_heartbeat_only]\<rparr>"

lemma scan_heartbeat:
  "scan env_sample ''admin'' 8640000000 criteria_sample world_heartbeat =
     Inr ([carol_candidate, dan_candidate], 150)"
  by (simp add: env_sample_def world_heartbeat_def world_sample_def criteria_sample_def
      carol_candidate_def dan_candidate_def user_sample_def stats_heartbeat_only_def scan_eval)

theorem last_activity_time_and_threshold_witness:
  "truthy (lastActivity stats_both) \<and> truthy (lastHeartbeat stats_both) \<and>
   lastActivityTime_of (Some stats_both) (user_sample ''carol'' False) = 7000 \<and>
   \<not> truthy (lastActivity stats_heartbeat_only) \<and>
   lastActivityTime_of (Some stats_heartbeat_only) (user_sample ''carol'' False) = 1000 \<and>
   \<not> 8640000000 - lastActivityTime_of (userLoadStats world_sample (handle (user_sample ''carol'' False)))
         (user_sample ''carol'' False) > inactiveDays (criteria_sample\<lparr>inactiveDays := 100\<rparr>) * 24 * 60 * 60 * 1000 \<and>
   getUserLoadStats_throws env_sample (handle (user_sample ''carol'' False)) = None \<and>
   scan_user env_sample ''admin'' 8640000000 (criteria_sample\<lparr>inactiveDays := 100\<rparr>) None
     world_sample (user_sample ''carol'' False) = Inr None"
  using last_activity_time_and_threshold [where s = stats_both and u = "user_sample ''carol'' False"]
    last_activity_time_and_threshold [where s = stats_heartbeat_only and u = "user_sample ''carol'' False"
          and now = 8640000000 and w = world_sample and crit = "criteria_sample\<lparr>inactiveDays := 100\<rparr>"
          and env = env_sample and caller = "''admin''" and bd = None]
  by (simp add: truthy_def or_zero_def stats_both_def stats_heartbeat_only_def user_sample_def
      world_sample_def criteria_sample_def lastActivityTime_of_def env_sample_def)

text \<open>
  C6 as stated fails: with a heartbeat one second old but no recorded last-activity
  signal, the handler takes the creation time, and the user is a candidate.
\<close>

theorem heartbeat_without_recorded_activity_ignored:
  "truthy (lastHeartbeat stats_heartbeat_only) \<and>
   spec_lastActivityTime (Some stats_heartbeat_only) (user_sample ''carol'' False) = 8639999000 \<and>
   lastActivityTime_of (Some stats_heartbeat_only) (user_sample ''carol'' False) = 1000 \<and>
   userLoadStats world_heartbeat ''carol'' = Some stats_heartbeat_only \<and>
   scan env_sample ''admin'' 8640000000 criteria_sample world_heartbeat =
     Inr ([carol_candidate, dan_candidate], 150)"
  by (simp add: scan_heartbeat)
     (simp add: truthy_def or_zero_def spec_lastActivityTime_def lastActivityTime_of_def
      stats_heartbeat_only_def user_sample_def world_heartbeat_def)

text \<open>What holds of /delete: a request whose handle is literally the caller's or the
  default account's is rejected and changes nothing.\<close>

lemma delete_user_literal_match_rejected:
  "delete_handle body = caller \<or> delete_handle body = DEFAULT_USER_handle env \<Longrightarrow>
   \<exists>e. delete_user env caller body w = (DeleteRejected e, w)"
  by (auto simp: delete_user_def)

text \<open>
  C9. The handle is compared with the caller's and the default account's before it is
  normalised, and the normalised handle is the one that is removed: a request whose
  handle differs from a protected handle only by what the normalisation folds passes both
  checks and removes the protected account. Here the default account, with its
  directory, and the caller's own account are deleted.
\<close>

theorem delete_user_removes_protected_account:
  "''Default-User'' \<noteq> ''admin'' \<and> ''Default-User'' \<noteq> DEFAULT_USER_handle env_sample \<and>
   normalizeHandle env_sample ''Default-User'' = DEFAULT_USER_handle env_sample \<and>
   account_of env_sample world_sample ''default-user'' =
     (Some (UserItem (user_sample ''default-user'' False)), Some (Dir [(''settings.json'', File 10)])) \<and>
   fst (delete_user env_sample ''admin'' \<lparr>delete_handle = ''Default-User'', purge = True\<rparr> world_sample)
     = Deleted \<and>
   account_of env_sample
     (snd (delete_user env_sample ''admin'' \<lparr>delete_handle = ''Default-User'', purge = True\<rparr>
        world_sample)) ''default-user'' = (None, None) \<and>
   normalizeHandle env_sample ''Admin'' = ''admin'' \<and>
   fst (delete_user env_sample ''admin'' \<lparr>delete_handle = ''Admin'', purge = False\<rparr> world_sample)
     = Deleted \<and>
   getItem (snd (delete_user env_sample ''admin'' \<lparr>delete_handle = ''Admin'', purge = False\<rparr>
        world_sample)) (toKey env_sample ''admin'') = None"
  by (simp add: delete_user_def env_sample_def to_lower_def account_of_def getItem_def
      world_sample_def removeItem_def resetUserStats_def rm_def Let_def)

section \<open>The JSON text determines its parts\<close>

lemma hex_digit_inj: "a < 16 \<Longrightarrow> b < 16 \<Longrightarrow> hex_digit a = hex_digit b \<Longrightarrow> a = b"
proof -
  assume a: "a < 16" and b: "b < 16" and e: "hex_digit a = hex_digit b"
  have d: "distinct ''0123456789abcdef''" by simp
  have l: "length ''0123456789abcdef'' = 16" by simp
  from e show "a = b"
    unfolding hex_digit_def using nth_eq_iff_index_eq [OF d, of a b] a b l by simp
qed

lemma escape_char_not_quote: "escape_char c \<noteq> [] \<and> hd (escape_char c) \<noteq> CHR 0x22"
  by (simp add: escape_char_def)

lemma escape_char_prefix_free:
  assumes "escape_char c @ x = escape_char d @ y"
  shows "c = d \<and> x = y"
proof -
  have u: "c = d" if "(of_char c :: nat) < 32" "(of_char d :: nat) < 32"
    "hex_digit (of_char c div 16) = hex_digit (of_char d div 16)"
    "hex_digit (of_char c mod 16) = hex_digit (of_char d mod 16)"
  proof -
    have "(of_char c :: nat) div 16 = of_char d div 16"
      using that(1,2,3) by (intro hex_digit_inj) auto
    moreover have "(of_char c :: nat) mod 16 = of_char d mod 16"
      using that(4) by (intro hex_digit_inj) auto
    ultimately have "(of_char c :: nat) = of_char d"
      by (metis div_mult_mod_eq)
    then show ?thesis by simp
  qed
  from assms show ?thesis
    by (auto simp: escape_char_def split: if_splits dest: u)
qed


lemma escaped_prefix_free:
  "concat (map escape_char s) @ CHR 0x22 # x = concat (map escape_char t) @ CHR 0x22 # y
   \<Longrightarrow> s = t \<and> x = y"
proof (induction s arbitrary: t)
  case Nil
  show ?case
  proof (cases t)
    case Nil
    with Nil.prems show ?thesis by simp
  next
    case (Cons d t')
    obtain e es where "escape_char d = e # es" "e \<noteq> CHR 0x22"
      using escape_char_not_quote [of d] by (cases "escape_char d") auto
    with Nil.prems Cons show ?thesis by simp
  qed
next
  case (Cons c s)
  show ?case
  proof (cases t)
    case Nil
    obtain e es where "escape_char c = e # es" "e \<noteq> CHR 0x22"
      using escape_char_not_quote [of c] by (cases "escape_char c") auto
    with Cons.prems Nil show ?thesis by simp
  next
    case t: (Cons d t')
    from Cons.prems t have
      "escape_char c @ (concat (map escape_char s) @ CHR 0x22 # x) =
       escape_char d @ (concat (map escape_char t') @ CHR 0x22 # y)"
      by simp
    then have "c = d" and
      "concat (map escape_char s) @ CHR 0x22 # x = concat (map escape_char t') @ CHR 0x22 # y"
      using escape_char_prefix_free by blast+
    with Cons.IH [of t'] t show ?thesis by simp
  qed
qed

lemma json_quote_prefix_free: "json_quote s @ x = json_quote t @ y \<Longrightarrow> s = t \<and> x = y"
  using escaped_prefix_free [of s x t y] by (simp add: json_quote_def)

lemma join_commas_Cons:
  "join_commas (v # vs) = v @ (if vs = [] then [] else '','' @ join_commas vs)"
  by (cases vs) simp_all

lemma json_quote_hd: "\<exists>r. json_quote s = CHR 0x22 # r"
  by (simp add: json_quote_def)

lemma quoted_list_inj:
  "join_commas (map json_quote hs) @ CHR '']'' # x = join_commas (map json_quote ks) @ CHR '']'' # y
   \<Longrightarrow> hs = ks"
proof (induction hs arbitrary: ks)
  case Nil
  show ?case
  proof (cases ks)
    case Nil
    then show ?thesis by simp
  next
    case (Cons k ks')
    obtain r where "json_quote k = CHR 0x22 # r" using json_quote_hd by blast
    with Nil.prems Cons show ?thesis by (simp add: join_commas_Cons)
  qed
next
  case (Cons h hs)
  show ?case
  proof (cases ks)
    case Nil
    obtain r where "json_quote h = CHR 0x22 # r" using json_quote_hd by blast
    with Cons.prems Nil show ?thesis by (simp add: join_commas_Cons)
  next
    case k: (Cons k ks')
    let ?rest = "\<lambda>vs z. (if vs = [] then [] else '','' @ join_commas (map json_quote vs)) @ CHR '']'' # z"
    from Cons.prems k have "json_quote h @ ?rest hs x = json_quote k @ ?rest ks' y"
      by (simp add: join_commas_Cons)
    then have hk: "h = k" and rest: "?rest hs x = ?rest ks' y"
      using json_quote_prefix_free by blast+
    have "hs = ks'"
    proof (cases "hs = []")
      case True
      with rest show ?thesis by (cases "ks' = []") auto
    next
      case False
      with rest have "ks' \<noteq> []" by (cases "ks' = []") auto
      with rest False have
        "join_commas (map json_quote hs) @ CHR '']'' # x =
         join_commas (map json_quote ks') @ CHR '']'' # y"
        by simp
      then show ?thesis by (rule Cons.IH)
    qed
    with hk k show ?thesis by simp
  qed
qed

lemma split_at_delimiter:
  "c \<notin> set xs \<Longrightarrow> c \<notin> set ys \<Longrightarrow> xs @ c # x = ys @ c # y \<Longrightarrow> xs = ys \<and> x = y"
proof (induction xs arbitrary: ys)
  case Nil
  then show ?case by (cases ys) auto
next
  case (Cons a xs)
  then show ?case by (cases ys) auto
qed

lemma json_bool_prefix_free: "json_bool a @ x = json_bool b @ y \<Longrightarrow> a = b \<and> x = y"
  by (cases a; cases b) (simp_all add: json_bool_def)


text \<open>The characters of a number as \<open>JSON.stringify\<close> prints a finite one.\<close>

definition number_chars :: "char set" where
  "number_chars = set ''0123456789.e+-''"

text \<open>The numbers of a criteria record that reach the JSON text.\<close>

definition criteria_numbers :: "criteria \<Rightarrow> rat list" where
  "criteria_numbers c =
     of_int (inactiveDays c) # (case maxStorageMB c of None \<Rightarrow> [] | Some q \<Rightarrow> [q])"

text \<open>
  On the numbers \<open>qs\<close> the number formatting prints number characters only and prints
  different numbers differently.
\<close>

definition number_format_ok :: "env \<Rightarrow> rat list \<Rightarrow> bool" where
  "number_format_ok env qs =
     ((\<forall>q \<in> set qs. set (numberToString env q) \<subseteq> number_chars) \<and>
      (\<forall>q \<in> set qs. \<forall>r \<in> set qs. numberToString env q = numberToString env r \<longrightarrow> q = r))"

definition maxStorageMB_text :: "env \<Rightarrow> criteria \<Rightarrow> string" where
  "maxStorageMB_text env c =
     (case maxStorageMB c of None \<Rightarrow> ''null'' | Some q \<Rightarrow> numberToString env q)"

lemma JSON_stringify_preview_form:
  "\<exists>p0 p1 p2 p3 p4.
     \<forall>c hs. JSON_stringify_preview env c hs =
       p0 @ numberToString env (of_int (inactiveDays c)) @ CHR '','' #
       (p1 @ json_bool (requireUnused c) @
        (p2 @ maxStorageMB_text env c @ CHR '','' #
         (p3 @ json_bool (excludeActiveSubscriptions c) @
          (p4 @ join_commas (map json_quote hs) @ CHR '']'' # ''}''))))"
  apply (rule exI [of _ "''{'' @ json_quote ''criteria'' @ '':{'' @ json_quote ''inactiveDays'' @ '':''"])
  apply (rule exI [of _ "json_quote ''requireUnused'' @ '':''"])
  apply (rule exI [of _ "'','' @ json_quote ''maxStorageMB'' @ '':''"])
  apply (rule exI [of _ "json_quote ''excludeActiveSubscriptions'' @ '':''"])
  apply (rule exI [of _ "''},'' @ json_quote ''handles'' @ '':[''"])
  apply (simp add: JSON_stringify_preview_def json_object_def json_array_def maxStorageMB_text_def)
  done

lemma comma_not_number: "set s \<subseteq> number_chars \<Longrightarrow> CHR '','' \<notin> set s"
  by (auto simp: number_chars_def)

lemma null_not_number: "set s \<subseteq> number_chars \<Longrightarrow> s \<noteq> ''null''"
  by (auto simp: number_chars_def)

lemma number_format_ok_chars:
  "number_format_ok env qs \<Longrightarrow> q \<in> set qs \<Longrightarrow> set (numberToString env q) \<subseteq> number_chars"
  unfolding number_format_ok_def by blast

lemma number_format_ok_inj:
  "number_format_ok env qs \<Longrightarrow> q \<in> set qs \<Longrightarrow> r \<in> set qs \<Longrightarrow>
   numberToString env q = numberToString env r \<Longrightarrow> q = r"
  unfolding number_format_ok_def by blast

lemma criteria_numbers_mem:
  "of_int (inactiveDays c) \<in> set (criteria_numbers c)"
  "maxStorageMB c = Some q \<Longrightarrow> q \<in> set (criteria_numbers c)"
  by (simp_all add: criteria_numbers_def)

lemma JSON_stringify_preview_inj:
  assumes ok: "number_format_ok env (criteria_numbers c1 @ criteria_numbers c2)"
    and eq: "JSON_stringify_preview env c1 hs1 = JSON_stringify_preview env c2 hs2"
  shows "c1 = c2 \<and> hs1 = hs2"
proof -
  obtain p0 p1 p2 p3 p4 where form:
    "\<And>c hs. JSON_stringify_preview env c hs =
       p0 @ numberToString env (of_int (inactiveDays c)) @ CHR '','' #
       (p1 @ json_bool (requireUnused c) @
        (p2 @ maxStorageMB_text env c @ CHR '','' #
         (p3 @ json_bool (excludeActiveSubscriptions c) @
          (p4 @ join_commas (map json_quote hs) @ CHR '']'' # ''}''))))"
    using JSON_stringify_preview_form [of env] by blast
  define t4 where "t4 hs = join_commas (map json_quote hs) @ CHR '']'' # ''}''" for hs
  define t3 where "t3 c hs = json_bool (excludeActiveSubscriptions c) @ (p4 @ t4 hs)"
    for c :: criteria and hs
  define t2 where "t2 c hs = maxStorageMB_text env c @ CHR '','' # (p3 @ t3 c hs)"
    for c :: criteria and hs
  define t1 where "t1 c hs = json_bool (requireUnused c) @ (p2 @ t2 c hs)"
    for c :: criteria and hs
  define N where "N c = numberToString env (of_int (inactiveDays c))" for c :: criteria
  have f: "JSON_stringify_preview env c hs = p0 @ N c @ CHR '','' # (p1 @ t1 c hs)" for c hs
    unfolding form t1_def t2_def t3_def t4_def N_def ..
  have mem: "q \<in> set (criteria_numbers c1 @ criteria_numbers c2)"
    if "q \<in> set (criteria_numbers c1) \<or> q \<in> set (criteria_numbers c2)" for q
    using that by auto
  have nchars: "set (N c1) \<subseteq> number_chars" "set (N c2) \<subseteq> number_chars"
    unfolding N_def
    by (rule number_format_ok_chars [OF ok mem], simp add: criteria_numbers_mem)+
  have mcomma: "CHR '','' \<notin> set (maxStorageMB_text env c)" if "c = c1 \<or> c = c2" for c
  proof (cases "maxStorageMB c")
    case None
    then show ?thesis by (simp add: maxStorageMB_text_def)
  next
    case (Some q)
    with that have "q \<in> set (criteria_numbers c1) \<or> q \<in> set (criteria_numbers c2)"
      using criteria_numbers_mem(2) by blast
    then have "set (numberToString env q) \<subseteq> number_chars"
      by (rule number_format_ok_chars [OF ok mem])
    with Some show ?thesis by (simp add: maxStorageMB_text_def comma_not_number)
  qed
  from eq have "N c1 @ CHR '','' # (p1 @ t1 c1 hs1) = N c2 @ CHR '','' # (p1 @ t1 c2 hs2)"
    unfolding f by (simp only: same_append_eq)
  then have "N c1 = N c2 \<and> p1 @ t1 c1 hs1 = p1 @ t1 c2 hs2"
    by (rule split_at_delimiter [OF comma_not_number [OF nchars(1)] comma_not_number [OF nchars(2)]])
  then have n: "N c1 = N c2" and e1: "t1 c1 hs1 = t1 c2 hs2"
    by (simp_all only: same_append_eq)
  from e1 have "requireUnused c1 = requireUnused c2 \<and> p2 @ t2 c1 hs1 = p2 @ t2 c2 hs2"
    unfolding t1_def by (rule json_bool_prefix_free)
  then have ru: "requireUnused c1 = requireUnused c2" and e2: "t2 c1 hs1 = t2 c2 hs2"
    by (simp_all only: same_append_eq)
  have mc: "CHR '','' \<notin> set (maxStorageMB_text env c1)" "CHR '','' \<notin> set (maxStorageMB_text env c2)"
    by (rule mcomma, simp)+
  from e2 have "maxStorageMB_text env c1 = maxStorageMB_text env c2 \<and> p3 @ t3 c1 hs1 = p3 @ t3 c2 hs2"
    unfolding t2_def by (rule split_at_delimiter [OF mc])
  then have m: "maxStorageMB_text env c1 = maxStorageMB_text env c2" and e3: "t3 c1 hs1 = t3 c2 hs2"
    by (simp_all only: same_append_eq)
  from e3 have "excludeActiveSubscriptions c1 = excludeActiveSubscriptions c2 \<and> p4 @ t4 hs1 = p4 @ t4 hs2"
    unfolding t3_def by (rule json_bool_prefix_free)
  then have ex: "excludeActiveSubscriptions c1 = excludeActiveSubscriptions c2" and e4: "t4 hs1 = t4 hs2"
    by (simp_all only: same_append_eq)
  from e4 have hs: "hs1 = hs2" unfolding t4_def by (rule quoted_list_inj)
  have days: "inactiveDays c1 = inactiveDays c2"
  proof -
    have "(of_int (inactiveDays c1) :: rat) = of_int (inactiveDays c2)"
      using n unfolding N_def
      by (rule number_format_ok_inj [OF ok mem mem, rotated 2])
         (simp_all add: criteria_numbers_mem)
    then show ?thesis by simp
  qed
  have mb: "maxStorageMB c1 = maxStorageMB c2"
  proof (cases "maxStorageMB c1")
    case None
    show ?thesis
    proof (cases "maxStorageMB c2")
      case None
      with \<open>maxStorageMB c1 = None\<close> show ?thesis by simp
    next
      case (Some q)
      then have "set (numberToString env q) \<subseteq> number_chars"
        by (intro number_format_ok_chars [OF ok mem]) (simp add: criteria_numbers_mem)
      with m None Some show ?thesis
        using null_not_number by (auto simp: maxStorageMB_text_def)
    qed
  next
    case (Some p)
    show ?thesis
    proof (cases "maxStorageMB c2")
      case None
      from Some have "set (numberToString env p) \<subseteq> number_chars"
        by (intro number_format_ok_chars [OF ok mem]) (simp add: criteria_numbers_mem)
      with m None Some show ?thesis
        using null_not_number by (auto simp: maxStorageMB_text_def)
    next
      case q: (Some q)
      with Some m have "numberToString env p = numberToString env q"
        by (simp add: maxStorageMB_text_def)
      then have "p = q"
        by (rule number_format_ok_inj [OF ok mem mem, rotated 2])
           (simp_all add: criteria_numbers_mem Some q)
      with Some q show ?thesis by simp
    qed
  qed
  from days ru mb ex have "c1 = c2" by simp
  with hs show ?thesis by simp
qed


text \<open>The digest gives different tokens for the two texts when they differ.\<close>

definition digest_separates :: "env \<Rightarrow> string \<Rightarrow> string \<Rightarrow> bool" where
  "digest_separates env x y = (x \<noteq> y \<longrightarrow> sha256_hex env x \<noteq> sha256_hex env y)"

lemma sort_eq_of_mset_eq:
  fixes xs ys :: "string list"
  shows "mset xs = mset ys \<Longrightarrow> sort xs = sort ys"
  by (metis properties_for_sort sorted_sort mset_sort)

text \<open>
  C5. The token is the digest of the JSON text of the criteria and the handles sorted
  by code units. Two candidate lists with the same handles in any order, in particular
  two lists without repeated handles and with the same set of handles, give the same
  token under the same criteria. The JSON text determines the criteria and the sorted
  handles: when a criterion differs or the sets of handles differ, the two texts differ,
  and so do the tokens when the digest separates the two texts. The number formatting
  of \<open>JSON.stringify\<close> is a parameter, required to print the numbers of the two criteria
  with number characters only and different numbers differently.
\<close>

theorem confirmation_token_deterministic_and_sensitive:
  "(mset (map cand_handle xs) = mset (map cand_handle ys) \<longrightarrow>
      previewId_of env crit xs = previewId_of env crit ys) \<and>
   (distinct (map cand_handle xs) \<and> distinct (map cand_handle ys) \<and>
    set (map cand_handle xs) = set (map cand_handle ys) \<longrightarrow>
      previewId_of env crit xs = previewId_of env crit ys) \<and>
   (number_format_ok env (criteria_numbers crit_a @ criteria_numbers crit_b) \<and>
    (crit_a \<noteq> crit_b \<or> set (map cand_handle xs) \<noteq> set (map cand_handle ys)) \<longrightarrow>
      JSON_stringify_preview env crit_a (sort (map cand_handle xs)) \<noteq>
      JSON_stringify_preview env crit_b (sort (map cand_handle ys))) \<and>
   (number_format_ok env (criteria_numbers crit_a @ criteria_numbers crit_b) \<and>
    digest_separates env (JSON_stringify_preview env crit_a (sort (map cand_handle xs)))
      (JSON_stringify_preview env crit_b (sort (map cand_handle ys))) \<and>
    (crit_a \<noteq> crit_b \<or> set (map cand_handle xs) \<noteq> set (map cand_handle ys)) \<longrightarrow>
      previewId_of env crit_a xs \<noteq> previewId_of env crit_b ys)"
proof -
  have perm: "previewId_of env crit xs = previewId_of env crit ys"
    if "mset (map cand_handle xs) = mset (map cand_handle ys)"
    using sort_eq_of_mset_eq [OF that] by (simp add: previewId_of_def)
  have dist: "mset (map cand_handle xs) = mset (map cand_handle ys)"
    if "distinct (map cand_handle xs)" "distinct (map cand_handle ys)"
      "set (map cand_handle xs) = set (map cand_handle ys)"
    using set_eq_iff_mset_eq_distinct [OF that(1,2)] that(3) by blast
  have differ: "JSON_stringify_preview env crit_a (sort (map cand_handle xs)) \<noteq>
      JSON_stringify_preview env crit_b (sort (map cand_handle ys))"
    if ok: "number_format_ok env (criteria_numbers crit_a @ criteria_numbers crit_b)"
      and ch: "crit_a \<noteq> crit_b \<or> set (map cand_handle xs) \<noteq> set (map cand_handle ys)"
  proof
    assume "JSON_stringify_preview env crit_a (sort (map cand_handle xs)) =
      JSON_stringify_preview env crit_b (sort (map cand_handle ys))"
    from JSON_stringify_preview_inj [OF ok this]
    have c: "crit_a = crit_b" and s: "sort (map cand_handle xs) = sort (map cand_handle ys)"
      by blast+
    from s have "set (sort (map cand_handle xs)) = set (sort (map cand_handle ys))" by simp
    then have "set (map cand_handle xs) = set (map cand_handle ys)" by simp
    with c ch show False by blast
  qed
  have tok: "previewId_of env crit_a xs \<noteq> previewId_of env crit_b ys"
    if "number_format_ok env (criteria_numbers crit_a @ criteria_numbers crit_b)"
      "digest_separates env (JSON_stringify_preview env crit_a (sort (map cand_handle xs)))
        (JSON_stringify_preview env crit_b (sort (map cand_handle ys)))"
      "crit_a \<noteq> crit_b \<or> set (map cand_handle xs) \<noteq> set (map cand_handle ys)"
    using differ [OF that(1,3)] that(2) by (simp add: digest_separates_def previewId_of_def)
  from perm dist differ tok show ?thesis by blast
qed

theorem confirmation_token_deterministic_and_sensitive_witness:
  "previewId_of env_sample criteria_sample [carol_candidate, dan_candidate] =
     previewId_of env_sample criteria_sample [dan_candidate, carol_candidate] \<and>
   criteria_sample \<noteq> criteria_sample\<lparr>maxStorageMB := Some 0\<rparr> \<and>
   previewId_of env_sample criteria_sample [carol_candidate, dan_candidate] \<noteq>
     previewId_of env_sample (criteria_sample\<lparr>maxStorageMB := Some 0\<rparr>)
       [carol_candidate, dan_candidate] \<and>
   set (map cand_handle [carol_candidate]) \<noteq> set (map cand_handle [carol_candidate, dan_candidate]) \<and>
   previewId_of env_sample criteria_sample [carol_candidate] \<noteq>
     previewId_of env_sample criteria_sample [carol_candidate, dan_candidate]"
proof -
  have h: "cand_handle carol_candidate = ''carol''" "cand_handle dan_candidate = ''dan''"
    by (simp_all add: carol_candidate_def dan_candidate_def)
  have m: "mset (map cand_handle [carol_candidate, dan_candidate]) =
      mset (map cand_handle [dan_candidate, carol_candidate])"
    by simp
  have c: "criteria_sample \<noteq> criteria_sample\<lparr>maxStorageMB := Some 0\<rparr>"
    by (simp add: criteria_sample_def)
  have ok1: "number_format_ok env_sample
      (criteria_numbers criteria_sample @ criteria_numbers (criteria_sample\<lparr>maxStorageMB := Some 0\<rparr>))"
    and ok2: "number_format_ok env_sample
      (criteria_numbers criteria_sample @ criteria_numbers criteria_sample)"
    by (simp_all add: number_format_ok_def criteria_numbers_def criteria_sample_def env_sample_def
        number_chars_def)
  have d: "digest_separates env_sample x y" for x y
    by (simp add: digest_separates_def env_sample_def)
  have s: "set (map cand_handle [carol_candidate]) \<noteq>
      set (map cand_handle [carol_candidate, dan_candidate])"
    by (simp add: h)
  show ?thesis
    using confirmation_token_deterministic_and_sensitive
        [where env = env_sample and crit = criteria_sample
           and xs = "[carol_candidate, dan_candidate]" and ys = "[dan_candidate, carol_candidate]"]
      confirmation_token_deterministic_and_sensitive
        [where env = env_sample and crit_a = criteria_sample
           and crit_b = "criteria_sample\<lparr>maxStorageMB := Some 0\<rparr>"
           and xs = "[carol_candidate, dan_candidate]" and ys = "[carol_candidate, dan_candidate]"]
      confirmation_token_deterministic_and_sensitive
        [where env = env_sample and crit_a = criteria_sample and crit_b = criteria_sample
           and xs = "[carol_candidate]" and ys = "[carol_candidate, dan_candidate]"]
      m c ok1 ok2 d s
    by (simp only: simp_thms)
qed

end
